theory Spec2Isabelle
  imports Main "HOL-Library.Word" "HOL-Library.Code_Target_Numeral"
begin

section \<open>Bytes, runes and errors\<close>

text \<open>
  A Go \<^verbatim>\<open>[]byte\<close> and a Go \<^verbatim>\<open>string\<close> are both sequences of bytes: they are
  modelled as \<open>string\<close> (a list of 8-bit \<open>char\<close>). A rune is a Unicode code point, a
  natural number. Every Go \<^verbatim>\<open>error\<close> value the package can produce or pass on is a
  constructor of \<open>error\<close>; a run-time panic is the value \<open>Panic\<close> of \<open>go\<close>.
\<close>

type_synonym rune = nat

datatype error =
    EOF
  | ErrUnexpectedEOF
  | ErrTooLong
  | ErrNegativeAdvance
  | ErrAdvanceTooFar
  | ErrFinalToken
  | ErrNoProgress
  | ErrHeader
  | ErrNotExist
  | PathError string string error
  | ReadError string
  | ScanError string
  | NumError string string
  | MalformedRecord string
  | ExpectedKind string string
  | Wrap error string
  | WithStack error

datatype 'a go = Panic | Return 'a

definition byte :: "char \<Rightarrow> nat" where
  "byte c = of_char c"

definition RuneError :: rune where
  "RuneError = 0xFFFD"

subsection \<open>unicode/utf8\<close>

text \<open>
  The table \<^verbatim>\<open>first\<close> of unicode/utf8 with \<^verbatim>\<open>acceptRanges\<close>: for a leading byte of
  a multi-byte sequence, the length of the sequence and the range the second byte must
  lie in; \<open>None\<close> for a byte that cannot start one (\<^verbatim>\<open>xx\<close>).
\<close>

definition first_info :: "nat \<Rightarrow> (nat \<times> nat \<times> nat) option" where
  "first_info p0 =
     (if p0 < 0xC2 then None
      else if p0 \<le> 0xDF then Some (2, 0x80, 0xBF)
      else if p0 = 0xE0 then Some (3, 0xA0, 0xBF)
      else if p0 \<le> 0xEC then Some (3, 0x80, 0xBF)
      else if p0 = 0xED then Some (3, 0x80, 0x9F)
      else if p0 \<le> 0xEF then Some (3, 0x80, 0xBF)
      else if p0 = 0xF0 then Some (4, 0x90, 0xBF)
      else if p0 \<le> 0xF3 then Some (4, 0x80, 0xBF)
      else if p0 = 0xF4 then Some (4, 0x80, 0x8F)
      else None)"

definition DecodeRune :: "string \<Rightarrow> rune \<times> nat" where
  "DecodeRune p =
     (case p of
        [] \<Rightarrow> (RuneError, 0)
      | c0 # _ \<Rightarrow>
         (let p0 = byte c0 in
          if p0 < 0x80 then (p0, 1)
          else case first_info p0 of
            None \<Rightarrow> (RuneError, 1)
          | Some (sz, lo, hi) \<Rightarrow>
             if length p < sz then (RuneError, 1)
             else let b1 = byte (p ! 1) in
               if b1 < lo \<or> hi < b1 then (RuneError, 1)
               else if sz \<le> 2 then ((p0 mod 32) * 64 + b1 mod 64, 2)
               else let b2 = byte (p ! 2) in
                 if b2 < 0x80 \<or> 0xBF < b2 then (RuneError, 1)
                 else if sz \<le> 3 then ((p0 mod 16) * 4096 + (b1 mod 64) * 64 + b2 mod 64, 3)
                 else let b3 = byte (p ! 3) in
                   if b3 < 0x80 \<or> 0xBF < b3 then (RuneError, 1)
                   else ((p0 mod 8) * 262144 + (b1 mod 64) * 4096 + (b2 mod 64) * 64
                           + b3 mod 64, 4)))"

definition FullRune :: "string \<Rightarrow> bool" where
  "FullRune p =
     (case p of
        [] \<Rightarrow> False
      | c0 # _ \<Rightarrow>
         (case (if byte c0 < 0x80 then None else first_info (byte c0)) of
            None \<Rightarrow> True
          | Some (sz, lo, hi) \<Rightarrow>
             if sz \<le> length p then True
             else if 1 < length p \<and> (byte (p ! 1) < lo \<or> hi < byte (p ! 1)) then True
             else if 2 < length p \<and> (byte (p ! 2) < 0x80 \<or> 0xBF < byte (p ! 2)) then True
             else False))"

definition EncodeRune :: "rune \<Rightarrow> string" where
  "EncodeRune r =
     (if r \<le> 0x7F then [char_of r]
      else if r \<le> 0x7FF then [char_of (0xC0 + r div 64), char_of (0x80 + r mod 64)]
      else if 0x10FFFF < r \<or> (0xD800 \<le> r \<and> r \<le> 0xDFFF) then
        [char_of (0xEF :: nat), char_of (0xBF :: nat), char_of (0xBD :: nat)]
      else if r \<le> 0xFFFF then
        [char_of (0xE0 + r div 4096), char_of (0x80 + (r div 64) mod 64),
         char_of (0x80 + r mod 64)]
      else
        [char_of (0xF0 + r div 262144), char_of (0x80 + (r div 4096) mod 64),
         char_of (0x80 + (r div 64) mod 64), char_of (0x80 + r mod 64)])"

lemma DecodeRune_size: "p \<noteq> [] \<Longrightarrow> 1 \<le> snd (DecodeRune p)"
  by (cases p) (auto simp: DecodeRune_def Let_def split: option.splits)

text \<open>
  The input of a scan, as its \<^verbatim>\<open>ReadRune\<close> delivers it: every rune with the bytes it
  was decoded from. \<open>fin\<close> is how the underlying reader ends: \<open>None\<close> for a clean
  end of input, \<open>Some e\<close> for a read error \<open>e\<close>, which an unfinished rune at the end
  of the data runs into.
\<close>

type_synonym items = "(rune \<times> string) list"

function runes :: "error option \<Rightarrow> string \<Rightarrow> items" where
  "runes fin p =
     (if p = [] \<or> (fin \<noteq> None \<and> \<not> FullRune p) then []
      else (fst (DecodeRune p), take (snd (DecodeRune p)) p)
             # runes fin (drop (snd (DecodeRune p)) p))"
  by pat_completeness auto
termination
proof (relation "measure (\<lambda>(fin, p). length p)")
  show "wf (measure (\<lambda>(fin, p). length p))" by simp
next
  fix fin :: "error option" and p :: string
  assume "\<not> (p = [] \<or> (fin \<noteq> None \<and> \<not> FullRune p))"
  then have "p \<noteq> []" by simp
  with DecodeRune_size [of p] show "((fin, drop (snd (DecodeRune p)) p), (fin, p))
      \<in> measure (\<lambda>(fin, p). length p)"
    by simp
qed

declare runes.simps [simp del]

definition raw :: "items \<Rightarrow> string" where
  "raw its = concat (map snd its)"

section \<open>Package fmt: scanning\<close>

text \<open>
  The functions of fmt's scan state \<^verbatim>\<open>ss\<close> that \<^verbatim>\<open>Fscanf\<close> runs for the two formats
  of this package. Each takes the input still to be read and returns \<open>Inl\<close> the error
  that \<^verbatim>\<open>Fscanf\<close> returns, or \<open>Inr\<close> its result with the input left. \<^verbatim>\<open>UnreadRune\<close>
  is leaving the rune in the input. \<^verbatim>\<open>Fscanf\<close> sets neither \<^verbatim>\<open>nlIsSpace\<close> nor
  \<^verbatim>\<open>nlIsEnd\<close> and the formats give no width. (The bound of \<open>2 ^ 30\<close> runes that fmt
  puts on one scan is left out: no header or tree record comes near it.)
\<close>

definition isSpace :: "rune \<Rightarrow> bool" where
  "isSpace r \<longleftrightarrow>
     r < 0x10000 \<and>
     ((0x09 \<le> r \<and> r \<le> 0x0D) \<or> r = 0x20 \<or> r = 0x85 \<or> r = 0xA0 \<or> r = 0x1680
      \<or> (0x2000 \<le> r \<and> r \<le> 0x200A) \<or> r = 0x2028 \<or> r = 0x2029 \<or> r = 0x202F
      \<or> r = 0x205F \<or> r = 0x3000)"

definition notSpace :: "rune \<Rightarrow> bool" where
  "notSpace r \<longleftrightarrow> \<not> isSpace r"

definition isDigit :: "rune \<Rightarrow> bool" where
  "isDigit r \<longleftrightarrow> 0x30 \<le> r \<and> r \<le> 0x39"

definition isSign :: "rune \<Rightarrow> bool" where
  "isSign r \<longleftrightarrow> r = 0x2B \<or> r = 0x2D"

text \<open>What \<^verbatim>\<open>getRune\<close> does when no rune is left: \<^verbatim>\<open>eof\<close>, or the reader's error.\<close>

definition at_end :: "error option \<Rightarrow> 'a \<Rightarrow> error + 'a" where
  "at_end fin x = (case fin of None \<Rightarrow> Inr x | Some e \<Rightarrow> Inl e)"

fun SkipSpace :: "error option \<Rightarrow> items \<Rightarrow> error + items" where
  "SkipSpace fin [] = at_end fin []"
| "SkipSpace fin ((r, b) # rest) =
     (if r = 0x0D \<and> (case rest of [] \<Rightarrow> False | (r', _) # _ \<Rightarrow> r' = 0x0A)
        then SkipSpace fin rest
      else if r = 0x0A then Inl (ScanError ''unexpected newline'')
      else if \<not> isSpace r then Inr ((r, b) # rest)
      else SkipSpace fin rest)"

definition notEOF :: "error option \<Rightarrow> items \<Rightarrow> error + items" where
  "notEOF fin its =
     (case its of
        [] \<Rightarrow> Inl (case fin of None \<Rightarrow> EOF | Some e \<Rightarrow> e)
      | _ # _ \<Rightarrow> Inr its)"

text \<open>The loop of \<^verbatim>\<open>ss.token\<close>, and of \<^verbatim>\<open>for s.accept(digits) {}\<close> with \<open>f = isDigit\<close>.\<close>

fun token :: "error option \<Rightarrow> (rune \<Rightarrow> bool) \<Rightarrow> items \<Rightarrow> error + string \<times> items" where
  "token fin f [] = at_end fin ([], [])"
| "token fin f ((r, b) # rest) =
     (if \<not> f r then Inr ([], (r, b) # rest)
      else case token fin f rest of
             Inl e \<Rightarrow> Inl e
           | Inr (t, rest') \<Rightarrow> Inr (EncodeRune r @ t, rest'))"

definition convertString :: "error option \<Rightarrow> items \<Rightarrow> error + string \<times> items" where
  "convertString fin its =
     (case SkipSpace fin its of
        Inl e \<Rightarrow> Inl e
      | Inr its1 \<Rightarrow>
         (case notEOF fin its1 of
            Inl e \<Rightarrow> Inl e
          | Inr its2 \<Rightarrow>
             (case SkipSpace fin its2 of
                Inl e \<Rightarrow> Inl e
              | Inr its3 \<Rightarrow> token fin notSpace its3)))"

definition scanNumber :: "error option \<Rightarrow> items \<Rightarrow> error + string \<times> items" where
  "scanNumber fin its =
     (case notEOF fin its of
        Inl e \<Rightarrow> Inl e
      | Inr its1 \<Rightarrow>
         (case its1 of
            [] \<Rightarrow> Inl (ScanError ''expected integer'')
          | (r, b) # rest \<Rightarrow>
             if \<not> isDigit r then Inl (ScanError ''expected integer'')
             else (case token fin isDigit rest of
                     Inl e \<Rightarrow> Inl e
                   | Inr (t, rest') \<Rightarrow> Inr (EncodeRune r @ t, rest'))))"

subsection \<open>strconv\<close>

definition digits_val :: "string \<Rightarrow> nat" where
  "digits_val ds = foldl (\<lambda>a c. 10 * a + (byte c - 0x30)) 0 ds"

definition is_digits :: "string \<Rightarrow> bool" where
  "is_digits ds \<longleftrightarrow> ds \<noteq> [] \<and> list_all (\<lambda>c. isDigit (byte c)) ds"

text \<open>\<^verbatim>\<open>strconv.ParseUint(s, 10, 64)\<close> and \<^verbatim>\<open>strconv.ParseInt(s, 10, 64)\<close>.\<close>

definition ParseUint :: "string \<Rightarrow> error + nat" where
  "ParseUint s =
     (if \<not> is_digits s then Inl (NumError s ''invalid syntax'')
      else if 2 ^ 64 \<le> digits_val s then Inl (NumError s ''value out of range'')
      else Inr (digits_val s))"

definition ParseInt :: "string \<Rightarrow> error + int" where
  "ParseInt s =
     (let neg = (s \<noteq> [] \<and> hd s = CHR ''-'');
          s' = (if s \<noteq> [] \<and> (hd s = CHR ''+'' \<or> hd s = CHR ''-'') then tl s else s)
      in if \<not> is_digits s' then Inl (NumError s ''invalid syntax'')
         else if \<not> neg \<and> 2 ^ 63 \<le> digits_val s' then Inl (NumError s ''value out of range'')
         else if neg \<and> 2 ^ 63 < digits_val s' then Inl (NumError s ''value out of range'')
         else Inr (if neg then - int (digits_val s') else int (digits_val s')))"

subsection \<open>The verbs\<close>

text \<open>
  \<^verbatim>\<open>scanInt(verb, 64)\<close> for an \<^verbatim>\<open>*int64\<close> and \<^verbatim>\<open>scanUint(verb, 32)\<close>, reached by
  reflection for an \<^verbatim>\<open>*os.FileMode\<close> (a \<^verbatim>\<open>uint32\<close>), both with the verb \<^verbatim>\<open>%d\<close>.
\<close>

definition scanInt :: "error option \<Rightarrow> items \<Rightarrow> error + int \<times> items" where
  "scanInt fin its =
     (case SkipSpace fin its of
        Inl e \<Rightarrow> Inl e
      | Inr its1 \<Rightarrow>
         (case notEOF fin its1 of
            Inl e \<Rightarrow> Inl e
          | Inr its2 \<Rightarrow>
             (let (sg, its3) = (case its2 of
                                  (r, b) # rest \<Rightarrow>
                                    if isSign r then (EncodeRune r, rest) else ([], its2)
                                | [] \<Rightarrow> ([], its2))
              in case scanNumber fin its3 of
                   Inl e \<Rightarrow> Inl e
                 | Inr (tok, its4) \<Rightarrow>
                    (case ParseInt (sg @ tok) of
                       Inl e \<Rightarrow> Inl e
                     | Inr i \<Rightarrow> Inr (i, its4)))))"

definition scanUint :: "error option \<Rightarrow> items \<Rightarrow> error + 32 word \<times> items" where
  "scanUint fin its =
     (case SkipSpace fin its of
        Inl e \<Rightarrow> Inl e
      | Inr its1 \<Rightarrow>
         (case notEOF fin its1 of
            Inl e \<Rightarrow> Inl e
          | Inr its2 \<Rightarrow>
             (case scanNumber fin its2 of
                Inl e \<Rightarrow> Inl e
              | Inr (tok, its3) \<Rightarrow>
                 (case ParseUint tok of
                    Inl e \<Rightarrow> Inl e
                  | Inr i \<Rightarrow>
                     if 2 ^ 32 \<le> i
                     then Inl (ScanError (''unsigned integer overflow on token '' @ tok))
                     else Inr (word_of_nat i, its3)))))"

subsection \<open>The format string\<close>

text \<open>
  \<^verbatim>\<open>ss.advance\<close> on the one space that both formats hold between their verbs: it matches
  one or more spaces other than newline, or the end of the input.
\<close>

fun skip_blanks :: "error option \<Rightarrow> items \<Rightarrow> error + items" where
  "skip_blanks fin [] = at_end fin []"
| "skip_blanks fin ((r, b) # rest) =
     (if isSpace r \<and> r \<noteq> 0x0A then skip_blanks fin rest else Inr ((r, b) # rest))"

definition advance_space :: "error option \<Rightarrow> items \<Rightarrow> error + items" where
  "advance_space fin its =
     (case its of
        [] \<Rightarrow> at_end fin []
      | (r, b) # rest \<Rightarrow>
         if \<not> isSpace r then Inl (ScanError ''expected space in input to match format'')
         else if r = 0x0A then Inl (ScanError ''newline in input does not match format'')
         else skip_blanks fin rest)"

text \<open>\<^verbatim>\<open>ss.advance\<close> on the literal \<^verbatim>\<open>\u0000\<close> that ends the header's format.\<close>

definition advance_nul :: "error option \<Rightarrow> items \<Rightarrow> error + items" where
  "advance_nul fin its =
     (case its of
        [] \<Rightarrow> Inl (case fin of None \<Rightarrow> ErrUnexpectedEOF | Some e \<Rightarrow> e)
      | (r, b) # rest \<Rightarrow>
         if r \<noteq> 0 then Inl (ScanError ''input does not match format'') else Inr rest)"

text \<open>\<^verbatim>\<open>fmt.Fscanf(bytes.NewReader(buf), "%d %s", &mode, &name)\<close>.\<close>

definition Fscanf_entry :: "string \<Rightarrow> error + 32 word \<times> string" where
  "Fscanf_entry buf =
     (case SkipSpace None (runes None buf) of
        Inl e \<Rightarrow> Inl e
      | Inr its1 \<Rightarrow>
         (case scanUint None its1 of
            Inl e \<Rightarrow> Inl e
          | Inr (mode, its2) \<Rightarrow>
             (case advance_space None its2 of
                Inl e \<Rightarrow> Inl e
              | Inr its3 \<Rightarrow>
                 (case SkipSpace None its3 of
                    Inl e \<Rightarrow> Inl e
                  | Inr its4 \<Rightarrow>
                     (case convertString None its4 of
                        Inl e \<Rightarrow> Inl e
                      | Inr (name, its5) \<Rightarrow> Inr (mode, name))))))"

text \<open>
  \<^verbatim>\<open>fmt.Fscanf(fr, "%s %d\u0000", &kind, &length)\<close> on the items of the decompressed
  stream: the kind, the length and the items not read. The reader \<^verbatim>\<open>fr\<close> has no
  \<^verbatim>\<open>UnreadRune\<close>, so fmt reads it through a one-rune look-ahead of its own, which is
  dropped when \<^verbatim>\<open>Fscanf\<close> returns; the last step of a successful scan reads the
  \<^verbatim>\<open>\u0000\<close> and looks no further.
\<close>

definition Fscanf_header :: "error option \<Rightarrow> items \<Rightarrow> error + (string \<times> int) \<times> items" where
  "Fscanf_header fin its =
     (case SkipSpace fin its of
        Inl e \<Rightarrow> Inl e
      | Inr its1 \<Rightarrow>
         (case convertString fin its1 of
            Inl e \<Rightarrow> Inl e
          | Inr (kind, its2) \<Rightarrow>
             (case advance_space fin its2 of
                Inl e \<Rightarrow> Inl e
              | Inr its3 \<Rightarrow>
                 (case SkipSpace fin its3 of
                    Inl e \<Rightarrow> Inl e
                  | Inr its4 \<Rightarrow>
                     (case scanInt fin its4 of
                        Inl e \<Rightarrow> Inl e
                      | Inr (len, its5) \<Rightarrow>
                         (case advance_nul fin its5 of
                            Inl e \<Rightarrow> Inl e
                          | Inr its6 \<Rightarrow> Inr ((kind, len), its6)))))))"

text \<open>\<^verbatim>\<open>fmt.Sprintf("%x", s)\<close> of a string: two lower-case hexadecimal digits a byte.\<close>

definition hexdigit :: "nat \<Rightarrow> char" where
  "hexdigit n = ''0123456789abcdef'' ! (n mod 16)"

definition Sprintf_x :: "string \<Rightarrow> string" where
  "Sprintf_x s = concat (map (\<lambda>c. [hexdigit (byte c div 16), hexdigit (byte c mod 16)]) s)"

section \<open>Readers\<close>

text \<open>
  An \<^verbatim>\<open>io.Reader\<close> over a fixed sequence of bytes, as the zlib reader of an object
  file is: \<open>data\<close> is what is still to come, \<open>final\<close> how the stream ends (\<open>None\<close>:
  \<^verbatim>\<open>io.EOF\<close>; \<open>Some e\<close>: the error \<open>e\<close>, as for a truncated or corrupt file), and
  \<open>sched\<close> the sizes of the pieces the next calls of \<^verbatim>\<open>Read\<close> deliver (an entry
  \<open>k\<close> stands for at most \<open>k + 1\<close> bytes; with no entry left a call delivers all it
  can). \<^verbatim>\<open>Read\<close> is called with the room \<open>cap\<close> of the caller's buffer. The end of
  the stream is reported by a call of its own, after the last bytes.
\<close>

record reader =
  data :: string
  sched :: "nat list"
  final :: "error option"

definition Read :: "reader \<Rightarrow> nat \<Rightarrow> string \<times> error option \<times> reader" where
  "Read rd cap =
     (if data rd = [] then ([], Some (case final rd of None \<Rightarrow> EOF | Some e \<Rightarrow> e), rd)
      else let want = (case sched rd of [] \<Rightarrow> length (data rd) | k # _ \<Rightarrow> Suc k);
               n = min cap (min want (length (data rd)))
           in (take n (data rd), None, rd\<lparr>data := drop n (data rd), sched := tl (sched rd)\<rparr>))"

section \<open>Package bufio: Scanner\<close>

text \<open>
  \<open>pending\<close> is the window \<^verbatim>\<open>s.buf[s.start:s.end]\<close> of the buffer, \<open>buf_len\<close> is
  \<^verbatim>\<open>len(s.buf)\<close>; \<^verbatim>\<open>s.end\<close> is \<open>start + length pending\<close>. A split function returns
  \<^verbatim>\<open>(advance, token, err)\<close>.
\<close>

record Scanner =
  src :: reader
  buf_len :: nat
  start :: nat
  pending :: string
  tok :: "string option"
  err :: "error option"
  empties :: nat
  is_done :: bool

type_synonym SplitFunc = "string \<Rightarrow> bool \<Rightarrow> int \<times> string option \<times> error option"

definition maxTokenSize :: nat where "maxTokenSize = 64 * 1024"
definition startBufSize :: nat where "startBufSize = 4096"
definition maxConsecutiveEmptyReads :: nat where "maxConsecutiveEmptyReads = 100"

definition NewScanner :: "reader \<Rightarrow> Scanner" where
  "NewScanner rd = \<lparr>src = rd, buf_len = 0, start = 0, pending = [], tok = None,
     err = None, empties = 0, is_done = False\<rparr>"

definition setErr :: "error \<Rightarrow> Scanner \<Rightarrow> Scanner" where
  "setErr e s = (if err s = None \<or> err s = Some EOF then s\<lparr>err := Some e\<rparr> else s)"

definition Err :: "Scanner \<Rightarrow> error option" where
  "Err s = (if err s = Some EOF then None else err s)"

definition Bytes :: "Scanner \<Rightarrow> string" where
  "Bytes s = (case tok s of None \<Rightarrow> [] | Some t \<Rightarrow> t)"

datatype step = Done bool Scanner | Crash | More Scanner

text \<open>
  The first half of one round of the loop of \<^verbatim>\<open>Scan\<close>: the split function is tried on
  what the buffer holds; \<open>More\<close> when the round goes on to read.
\<close>

definition scan_try :: "SplitFunc \<Rightarrow> Scanner \<Rightarrow> step" where
  "scan_try split s =
     (let shut = (\<lambda>s'. if err s' \<noteq> None then Done False (s'\<lparr>start := 0, pending := []\<rparr>)
                        else More s')
      in if pending s \<noteq> [] \<or> err s \<noteq> None then
           (case split (pending s) (err s \<noteq> None) of
              (adv, tk, Some e) \<Rightarrow>
                if e = ErrFinalToken then Done (tk \<noteq> None) (s\<lparr>tok := tk, is_done := True\<rparr>)
                else Done False (setErr e s)
            | (adv, tk, None) \<Rightarrow>
                if adv < 0 then Done False (setErr ErrNegativeAdvance s)
                else if int (length (pending s)) < adv then Done False (setErr ErrAdvanceTooFar s)
                else
                  let s1 = s\<lparr>start := start s + nat adv, pending := drop (nat adv) (pending s),
                              tok := tk\<rparr>
                  in if tk \<noteq> None then
                       (if err s1 = None \<or> 0 < adv then Done True (s1\<lparr>empties := 0\<rparr>)
                        else if maxConsecutiveEmptyReads < Suc (empties s1) then Crash
                        else Done True (s1\<lparr>empties := Suc (empties s1)\<rparr>))
                     else shut s1)
         else shut s)"

text \<open>
  The second half: the data is moved to the front of the buffer when there is room to
  win, a full buffer is doubled up to \<open>maxTokenSize\<close>, and the reader is read once
  (a reader that keeps delivering nothing ends in \<open>ErrNoProgress\<close>).
\<close>

definition scan_fill :: "Scanner \<Rightarrow> step" where
  "scan_fill s =
     (let s1 = (if 0 < start s \<and> (start s + length (pending s) = buf_len s
                                   \<or> buf_len s div 2 < start s)
                then s\<lparr>start := 0\<rparr> else s)
      in if start s1 + length (pending s1) = buf_len s1 \<and> maxTokenSize \<le> buf_len s1
         then Done False (setErr ErrTooLong s1)
         else
           let s2 = (if start s1 + length (pending s1) = buf_len s1
                     then s1\<lparr>buf_len := min (if buf_len s1 * 2 = 0 then startBufSize
                                                else buf_len s1 * 2) maxTokenSize,
                              start := 0\<rparr>
                     else s1)
           in case Read (src s2) (buf_len s2 - (start s2 + length (pending s2))) of
                (chunk, e, rd) \<Rightarrow>
                  let s3 = s2\<lparr>src := rd, pending := pending s2 @ chunk\<rparr>
                  in (case e of
                        Some e' \<Rightarrow> More (setErr e' s3)
                      | None \<Rightarrow>
                         if chunk \<noteq> [] then More (s3\<lparr>empties := 0\<rparr>)
                         else More (setErr ErrNoProgress s3)))"

definition scan_size :: "Scanner \<Rightarrow> nat" where
  "scan_size s = (case err s of None \<Rightarrow> Suc (length (data (src s))) | Some _ \<Rightarrow> 0)"

lemma scan_try_More:
  "scan_try split s = More s1 \<Longrightarrow> err s = None \<and> err s1 = None \<and> src s1 = src s"
  unfolding scan_try_def Let_def
  by (simp split: if_splits prod.splits option.splits) auto

lemma Read_cases:
  "Read rd cap = (chunk, e, rd') \<Longrightarrow>
     (e \<noteq> None \<and> chunk = [] \<and> rd' = rd) \<or> (e = None \<and> data rd = chunk @ data rd')"
  by (auto simp: Read_def Let_def split: if_splits)

lemma scan_fill_More:
  "scan_fill s1 = More s2 \<Longrightarrow> err s1 = None \<Longrightarrow> scan_size s2 < scan_size s1"
  unfolding scan_fill_def Let_def
  apply (simp split: if_splits prod.splits option.splits)
  apply (auto simp: scan_size_def setErr_def dest!: Read_cases)
  done

function scan_loop :: "SplitFunc \<Rightarrow> Scanner \<Rightarrow> (bool \<times> Scanner) go" where
  "scan_loop split s =
     (case scan_try split s of
        Done b s' \<Rightarrow> Return (b, s')
      | Crash \<Rightarrow> Panic
      | More s1 \<Rightarrow>
         (case scan_fill s1 of
            Done b s' \<Rightarrow> Return (b, s')
          | Crash \<Rightarrow> Panic
          | More s2 \<Rightarrow> scan_loop split s2))"
  by pat_completeness auto
termination
proof (relation "measure (\<lambda>(split, s). scan_size s)")
  show "wf (measure (\<lambda>(split, s). scan_size s))" by simp
next
  fix split :: SplitFunc and s s1 s2 :: Scanner
  assume t: "scan_try split s = More s1" and f: "scan_fill s1 = More s2"
  from scan_try_More [OF t] have e: "err s1 = None" and "scan_size s1 = scan_size s"
    by (simp_all add: scan_size_def)
  with scan_fill_More [OF f e]
  show "((split, s2), (split, s)) \<in> measure (\<lambda>(split, s). scan_size s)"
    by simp
qed

declare scan_loop.simps [simp del]

definition Scan :: "SplitFunc \<Rightarrow> Scanner \<Rightarrow> (bool \<times> Scanner) go" where
  "Scan split s = (if is_done s then Return (False, s) else scan_loop split s)"

subsection \<open>Split functions\<close>

text \<open>\<^verbatim>\<open>bytes.IndexByte\<close> and \<^verbatim>\<open>strings.Index\<close> of one byte: \<open>-1\<close> when it is absent.\<close>

fun IndexByte :: "string \<Rightarrow> char \<Rightarrow> int" where
  "IndexByte [] c = -1"
| "IndexByte (x # xs) c =
     (if x = c then 0 else let i = IndexByte xs c in if i < 0 then -1 else i + 1)"

definition dropCR :: "string \<Rightarrow> string" where
  "dropCR d = (if 0 < length d \<and> last d = CHR 0x0D then butlast d else d)"

definition ScanLines :: SplitFunc where
  "ScanLines d atEOF =
     (if atEOF \<and> length d = 0 then (0, None, None)
      else let i = IndexByte d (CHR 0x0A) in
        if 0 \<le> i then (i + 1, Some (dropCR (take (nat i) d)), None)
        else if atEOF then (int (length d), Some (dropCR d), None)
        else (0, None, None))"

text \<open>
  The loops \<^verbatim>\<open>for sc.Scan() { ... }\<close> of this package end because each token their
  split function returns comes with a positive \<^verbatim>\<open>advance\<close> and no error: every round
  leaves less to scan, \<open>loop_size\<close>.
\<close>

definition progresses :: "SplitFunc \<Rightarrow> bool" where
  "progresses split \<longleftrightarrow> (\<forall>d e a t x. split d e = (a, Some t, x) \<longrightarrow> x = None \<and> 0 < a)"

definition loop_size :: "Scanner \<Rightarrow> nat" where
  "loop_size s = length (pending s) + length (data (src s))"

lemma scan_try_True:
  assumes p: "progresses split" and d: "scan_try split s = Done True s'"
  shows "loop_size s' < loop_size s"
proof -
  obtain a t x where sp: "split (pending s) (err s \<noteq> None) = (a, t, x)"
    by (cases "split (pending s) (err s \<noteq> None)") auto
  show ?thesis
  proof (cases t)
    case None
    with d sp show ?thesis
      unfolding scan_try_def Let_def
      by (simp split: if_splits option.splits)
  next
    case (Some tk)
    with p sp have "x = None" and "0 < a" by (auto simp: progresses_def)
    with d sp Some show ?thesis
      unfolding scan_try_def Let_def
      by (auto simp: loop_size_def split: if_splits)
  qed
qed

lemma scan_try_size:
  "scan_try split s = More s1 \<Longrightarrow> loop_size s1 \<le> loop_size s"
  unfolding scan_try_def Let_def
  apply (simp split: if_splits prod.splits option.splits)
  apply (auto simp: loop_size_def)
  done

lemma scan_fill_size:
  "scan_fill s1 = More s2 \<Longrightarrow> loop_size s2 = loop_size s1"
  unfolding scan_fill_def Let_def
  apply (simp split: if_splits prod.splits option.splits)
  apply (auto simp: loop_size_def setErr_def dest!: Read_cases)
  done

lemma scan_fill_Done: "scan_fill s1 = Done b s' \<Longrightarrow> \<not> b"
  unfolding scan_fill_def Let_def
  by (simp split: if_splits prod.splits option.splits)

lemma scan_loop_True:
  "progresses split \<Longrightarrow> scan_loop split s = Return (True, s') \<Longrightarrow> loop_size s' < loop_size s"
proof (induction split s rule: scan_loop.induct)
  case (1 split s)
  show ?case
  proof (cases "scan_try split s")
    case (Done b s0)
    with "1.prems" scan_try_True [of split s s'] show ?thesis
      by (simp add: scan_loop.simps [of split s])
  next
    case Crash
    with "1.prems" show ?thesis by (simp add: scan_loop.simps [of split s])
  next
    case (More s1)
    note m = this
    show ?thesis
    proof (cases "scan_fill s1")
      case (Done b s0)
      with m "1.prems" scan_fill_Done [of s1 b s0] show ?thesis
        by (simp add: scan_loop.simps [of split s])
    next
      case Crash
      with m "1.prems" show ?thesis by (simp add: scan_loop.simps [of split s])
    next
      case (More s2)
      with m "1.prems" have "scan_loop split s2 = Return (True, s')"
        by (simp add: scan_loop.simps [of split s])
      with "1.IH" [OF m More] "1.prems" have "loop_size s' < loop_size s2" by simp
      with scan_try_size [OF m] scan_fill_size [OF More] show ?thesis by simp
    qed
  qed
qed

lemma Scan_True:
  "progresses split \<Longrightarrow> Scan split s = Return (True, s') \<Longrightarrow> loop_size s' < loop_size s"
  by (auto simp: Scan_def scan_loop_True split: if_splits)

lemma progresses_ScanLines: "progresses ScanLines"
  unfolding progresses_def ScanLines_def Let_def
  by (auto split: if_splits)

section \<open>The operating system\<close>

text \<open>
  A file of the object store is described by what compress/zlib makes of it:
  \<open>NotZlib e\<close> is a file on which \<^verbatim>\<open>zlib.NewReader\<close> fails with \<open>e\<close> (\<open>ErrHeader\<close> for
  bytes that are no zlib stream), \<open>Deflated rd\<close> one whose decompressed stream is the
  reader \<open>rd\<close>. The state of the operating system is the files by path and the file
  handles that are open.
\<close>

datatype object_file = NotZlib error | Deflated reader

record os_state =
  files :: "string \<Rightarrow> object_file option"
  open_files :: "nat list"
  next_fd :: nat

text \<open>
  \<^verbatim>\<open>filepath.Join\<close>: the elements that are not empty, separated by \<^verbatim>\<open>/\<close>. (Its result
  is passed through \<^verbatim>\<open>filepath.Clean\<close>, which is not modelled: it leaves a path of
  clean elements as it is.)
\<close>

fun Join :: "string list \<Rightarrow> string" where
  "Join [] = []"
| "Join (x # xs) =
     (if x = [] then Join xs
      else if Join xs = [] then x
      else x @ ''/'' @ Join xs)"

definition os_Open :: "os_state \<Rightarrow> string \<Rightarrow> error + (nat \<times> object_file) \<times> os_state" where
  "os_Open os path =
     (case files os path of
        None \<Rightarrow> Inl (PathError ''open'' path ErrNotExist)
      | Some f \<Rightarrow>
         Inr ((next_fd os, f),
              os\<lparr>open_files := next_fd os # open_files os, next_fd := Suc (next_fd os)\<rparr>))"

definition os_Stat :: "os_state \<Rightarrow> string \<Rightarrow> error option" where
  "os_Stat os path =
     (case files os path of
        None \<Rightarrow> Some (PathError ''stat'' path ErrNotExist)
      | Some f \<Rightarrow> None)"

definition IsNotExist :: "error option \<Rightarrow> bool" where
  "IsNotExist e \<longleftrightarrow> (case e of Some (PathError _ _ ErrNotExist) \<Rightarrow> True | _ \<Rightarrow> False)"

definition zlib_NewReader :: "object_file \<Rightarrow> error + reader" where
  "zlib_NewReader f = (case f of NotZlib e \<Rightarrow> Inl e | Deflated rd \<Rightarrow> Inr rd)"

text \<open>An \<^verbatim>\<open>io.ReadCloser\<close> made of a reader and the file handle that \<^verbatim>\<open>Close\<close> releases.\<close>

record ReadCloser =
  Reader :: reader
  Closer :: nat

definition Close :: "ReadCloser \<Rightarrow> os_state \<Rightarrow> os_state" where
  "Close rc os = os\<lparr>open_files := removeAll (Closer rc) (open_files os)\<rparr>"

section \<open>Package git\<close>

record Repository =
  Root :: string

record Commit =
  Repository :: Repository
  tree :: string
  Commit_id :: string

record Entry =
  Name :: string
  Mode :: "32 word"
  Entry_id :: string

record Tree =
  Commit :: Commit
  Tree_id :: string
  Entries :: "Entry list"

record Blob =
  Size :: int
  ReadCloser :: ReadCloser

record header =
  kind :: string
  length_h :: int

subsection \<open>readObject\<close>

definition readObject ::
  "Repository \<Rightarrow> string \<Rightarrow> os_state \<Rightarrow> ((error + header \<times> ReadCloser) \<times> os_state) go" where
  "readObject r sha os =
     (if length sha < 2 then Panic
      else
        let path = Join [Root r, ''.git'', ''objects'', take 2 sha, drop 2 sha] in
        case os_Open os path of
          Inl e \<Rightarrow> Return (Inl (WithStack e), os)
        | Inr ((f, content), os1) \<Rightarrow>
           (case zlib_NewReader content of
              Inl e \<Rightarrow> Return (Inl (WithStack e), os1)
            | Inr fr \<Rightarrow>
               (let its = runes (final fr) (data fr) in
                case Fscanf_header (final fr) its of
                  Inl e \<Rightarrow> Return (Inl (Wrap e ''cannot parse header''), os1)
                | Inr ((k, n), rest) \<Rightarrow>
                   Return (Inr (\<lparr>kind = k, length_h = n\<rparr>,
                                \<lparr>Reader = fr\<lparr>data := drop (length (raw its) - length (raw rest))
                                                          (data fr)\<rparr>,
                                   Closer = f\<rparr>),
                           os1))))"

subsection \<open>Trees\<close>

definition scanTreeEntry :: SplitFunc where
  "scanTreeEntry d atEOF =
     (if atEOF \<and> length d = 0 then (0, None, None)
      else
        let recordLength = IndexByte d (CHR 0x00) + 21 in
        if recordLength \<le> int (length d) then
          (recordLength, Some (take (nat recordLength) d), None)
        else if atEOF then (0, None, Some (MalformedRecord d))
        else (0, None, None))"

lemma IndexByte_ge: "- 1 \<le> IndexByte d c"
  by (induction d) (auto simp: Let_def)

lemma progresses_scanTreeEntry: "progresses scanTreeEntry"
  unfolding progresses_def
proof (intro allI impI)
  fix d e a t x
  assume "scanTreeEntry d e = (a, Some t, x)"
  with IndexByte_ge [of d "CHR 0x00"] show "x = None \<and> 0 < a"
    by (auto simp: scanTreeEntry_def Let_def split: if_splits)
qed

text \<open>
  The loop of \<^verbatim>\<open>parseTree\<close>. The two slice expressions panic on a token shorter than
  21 bytes. The result of \<^verbatim>\<open>os.Stat\<close> is looked at by an \<^verbatim>\<open>if\<close> whose body is
  commented out. An \<open>Entry\<close> is modelled without the pointer to its parent tree.
\<close>

function parseTree_loop ::
  "os_state \<Rightarrow> Tree \<Rightarrow> Scanner \<Rightarrow> (Tree option \<times> error option) go" where
  "parseTree_loop os t sc =
     (case Scan scanTreeEntry sc of
        Panic \<Rightarrow> Panic
      | Return (ok, sc') \<Rightarrow>
         if \<not> ok then Return (Some t, Err sc')
         else
           let buf = Bytes sc' in
           if length buf < 21 then Panic
           else
             let sha = drop (length buf - 20) buf in
             (case Fscanf_entry (take (length buf - 21) buf) of
                Inl e \<Rightarrow> Return (None, Some (Wrap e ''could not read tree entry''))
              | Inr (mode, name) \<Rightarrow>
                 let path = Join [Root (Repository (Commit t)), ''.git'', ''objects'',
                                  take 2 sha, drop 2 sha];
                     absent = IsNotExist (os_Stat os path)
                 in parseTree_loop os
                      (t\<lparr>Entries := Entries t @
                           [\<lparr>Name = name, Mode = mode, Entry_id = Sprintf_x sha\<rparr>]\<rparr>)
                      sc'))"
  by pat_completeness auto
termination
proof (relation "measure (\<lambda>(os, t, sc). loop_size sc)")
  show "wf (measure (\<lambda>(os, t, sc). loop_size sc))" by simp
next
  fix os :: os_state and t t' :: Tree and sc sc' :: Scanner and ok :: bool
    and x :: "bool \<times> Scanner"
  assume "Scan scanTreeEntry sc = Return x" and "(ok, sc') = x" and "\<not> \<not> ok"
  then have "Scan scanTreeEntry sc = Return (True, sc')" by auto
  from Scan_True [OF progresses_scanTreeEntry this]
  show "((os, t', sc'), (os, t, sc)) \<in> measure (\<lambda>(os, t, sc). loop_size sc)"
    by simp
qed

declare parseTree_loop.simps [simp del]

definition parseTree :: "Tree \<Rightarrow> reader \<Rightarrow> os_state \<Rightarrow> (Tree option \<times> error option) go" where
  "parseTree t r os = parseTree_loop os t (NewScanner r)"

subsection \<open>Reading trees and blobs\<close>

text \<open>\<^verbatim>\<open>readTree\<close> closes the object on every path once it is open (\<^verbatim>\<open>defer rc.Close()\<close>).\<close>

definition readTree ::
  "Commit \<Rightarrow> string \<Rightarrow> os_state \<Rightarrow> ((Tree option \<times> error option) \<times> os_state) go" where
  "readTree c sha os =
     (case readObject (Repository c) sha os of
        Panic \<Rightarrow> Panic
      | Return (Inl e, os1) \<Rightarrow> Return ((None, Some e), os1)
      | Return (Inr (h, rc), os1) \<Rightarrow>
         if kind h \<noteq> ''tree'' then
           Return ((None, Some (ExpectedKind ''tree'' (kind h))), Close rc os1)
         else
           (case parseTree \<lparr>Commit = c, Tree_id = sha, Entries = []\<rparr> (Reader rc) os1 of
              Panic \<Rightarrow> Panic
            | Return res \<Rightarrow> Return (res, Close rc os1)))"

definition readBlob :: "Tree \<Rightarrow> string \<Rightarrow> os_state \<Rightarrow> ((error + Blob) \<times> os_state) go" where
  "readBlob t sha os =
     (case readObject (Repository (Commit t)) sha os of
        Panic \<Rightarrow> Panic
      | Return (Inl e, os1) \<Rightarrow> Return (Inl e, os1)
      | Return (Inr (h, rc), os1) \<Rightarrow>
         if kind h \<noteq> ''blob'' then Return (Inl (ExpectedKind ''blob'' (kind h)), os1)
         else Return (Inr \<lparr>Size = length_h h, ReadCloser = rc\<rparr>, os1))"

text \<open>The methods \<^verbatim>\<open>Tree.Blob\<close> and \<^verbatim>\<open>Tree.Tree\<close>, each a loop over \<^verbatim>\<open>t.Entries\<close>.\<close>

fun Blob_loop :: "Tree \<Rightarrow> string \<Rightarrow> Entry list \<Rightarrow> os_state \<Rightarrow> ((error + Blob) \<times> os_state) go" where
  "Blob_loop t name [] os = Return (Inl (PathError ''open'' name ErrNotExist), os)"
| "Blob_loop t name (e # es) os =
     (if name = Name e then readBlob t (Entry_id e) os else Blob_loop t name es os)"

definition Tree_Blob :: "Tree \<Rightarrow> string \<Rightarrow> os_state \<Rightarrow> ((error + Blob) \<times> os_state) go" where
  "Tree_Blob t name os = Blob_loop t name (Entries t) os"

fun Tree_loop ::
  "Tree \<Rightarrow> string \<Rightarrow> Entry list \<Rightarrow> os_state \<Rightarrow> ((Tree option \<times> error option) \<times> os_state) go" where
  "Tree_loop t name [] os = Return ((None, Some (PathError ''open'' name ErrNotExist)), os)"
| "Tree_loop t name (e # es) os =
     (if name = Name e then readTree (Commit t) (Entry_id e) os else Tree_loop t name es os)"

definition Tree_Tree ::
  "Tree \<Rightarrow> string \<Rightarrow> os_state \<Rightarrow> ((Tree option \<times> error option) \<times> os_state) go" where
  "Tree_Tree t name os = Tree_loop t name (Entries t) os"

subsection \<open>Commits\<close>

text \<open>
  \<^verbatim>\<open>strings.TrimSpace\<close>: the string without the white space at its two ends, read rune by
  rune.
\<close>

definition TrimSpace :: "string \<Rightarrow> string" where
  "TrimSpace s =
     raw (rev (dropWhile (\<lambda>it. isSpace (fst it))
            (rev (dropWhile (\<lambda>it. isSpace (fst it)) (runes None s)))))"

text \<open>The body of the loop of \<^verbatim>\<open>parseCommit\<close>, for one line \<open>s\<close>.\<close>

definition commit_line :: "Commit \<Rightarrow> string \<Rightarrow> Commit" where
  "commit_line c s =
     (let i = IndexByte s (CHR '' '') in
      if i < 0 then c
      else if take (nat i) s = ''tree'' then c\<lparr>tree := TrimSpace (drop (length ''tree '') s)\<rparr>
      else c)"

function parseCommit_loop :: "Commit \<Rightarrow> Scanner \<Rightarrow> (Commit option \<times> error option) go" where
  "parseCommit_loop c sc =
     (case Scan ScanLines sc of
        Panic \<Rightarrow> Panic
      | Return (ok, sc') \<Rightarrow>
         if \<not> ok then Return (Some c, Err sc')
         else parseCommit_loop (commit_line c (Bytes sc')) sc')"
  by pat_completeness auto
termination
proof (relation "measure (\<lambda>(c, sc). loop_size sc)")
  show "wf (measure (\<lambda>(c, sc). loop_size sc))" by simp
next
  fix c :: Commit and sc sc' :: Scanner and ok :: bool and x :: "bool \<times> Scanner"
  assume "Scan ScanLines sc = Return x" and "(ok, sc') = x" and "\<not> \<not> ok"
  then have "Scan ScanLines sc = Return (True, sc')" by auto
  from Scan_True [OF progresses_ScanLines this]
  show "((commit_line c (Bytes sc'), sc'), (c, sc)) \<in> measure (\<lambda>(c, sc). loop_size sc)"
    by simp
qed

declare parseCommit_loop.simps [simp del]

definition parseCommit :: "Commit \<Rightarrow> reader \<Rightarrow> (Commit option \<times> error option) go" where
  "parseCommit c r = parseCommit_loop c (NewScanner r)"

definition readCommit ::
  "Repository \<Rightarrow> string \<Rightarrow> os_state \<Rightarrow> ((Commit option \<times> error option) \<times> os_state) go" where
  "readCommit r sha os =
     (case readObject r sha os of
        Panic \<Rightarrow> Panic
      | Return (Inl e, os1) \<Rightarrow> Return ((None, Some e), os1)
      | Return (Inr (h, rc), os1) \<Rightarrow>
         if kind h \<noteq> ''commit'' then
           Return ((None, Some (ExpectedKind ''commit'' (kind h))), Close rc os1)
         else
           (case parseCommit \<lparr>Repository = r, tree = [], Commit_id = sha\<rparr> (Reader rc) of
              Panic \<Rightarrow> Panic
            | Return res \<Rightarrow> Return (res, Close rc os1)))"

definition Repository_Commit ::
  "Repository \<Rightarrow> string \<Rightarrow> os_state \<Rightarrow> ((Commit option \<times> error option) \<times> os_state) go" where
  "Repository_Commit r sha os = readCommit r sha os"

definition Commit_Tree ::
  "Commit \<Rightarrow> os_state \<Rightarrow> ((Tree option \<times> error option) \<times> os_state) go" where
  "Commit_Tree c os = readTree c (tree c) os"

text \<open>A commit body made of the lines \<open>ls\<close>, each ended by a newline.\<close>

definition commit_body_of :: "string list \<Rightarrow> string" where
  "commit_body_of ls = concat (map (\<lambda>l. l @ [CHR 0x0A]) ls)"

section \<open>Stepping the Scanner\<close>

text \<open>
  The state of a Scanner after its first read has delivered all of \<open>d\<close>, and the
  rounds of \<^verbatim>\<open>Scan\<close> that later proofs step through: the first read, a round that
  yields a token, and the round that meets the end of the input.
\<close>

definition fresh :: "string \<Rightarrow> error option \<Rightarrow> Scanner" where
  "fresh d f = \<lparr>src = \<lparr>data = [], sched = [], final = f\<rparr>, buf_len = startBufSize, start = 0,
     pending = d, tok = None, err = None, empties = 0, is_done = False\<rparr>"

lemma Scan_first:
  assumes "d \<noteq> []" and "length d \<le> startBufSize"
  shows "Scan split (NewScanner \<lparr>data = d, sched = [], final = f\<rparr>) = scan_loop split (fresh d f)"
proof -
  let ?s = "NewScanner \<lparr>data = d, sched = [], final = f\<rparr>"
  have t: "scan_try split ?s = More ?s"
    by (simp add: scan_try_def NewScanner_def)
  have f: "scan_fill ?s = More (fresh d f)"
    using assms
    by (simp add: scan_fill_def NewScanner_def Read_def fresh_def maxTokenSize_def
          startBufSize_def min_def)
  show ?thesis
    by (simp add: Scan_def scan_loop.simps [of split ?s] t f) (simp add: NewScanner_def)
qed

lemma scan_try_token:
  assumes "split (pending s) (err s \<noteq> None) = (a, Some t, None)"
    and "0 < a" and "a \<le> int (length (pending s))"
  shows "scan_try split s = Done True (s\<lparr>start := start s + nat a,
           pending := drop (nat a) (pending s), tok := Some t, empties := 0\<rparr>)"
  using assms by (auto simp: scan_try_def)

lemma scan_loop_token:
  assumes "split (pending s) (err s \<noteq> None) = (a, Some t, None)"
    and "0 < a" and "a \<le> int (length (pending s))"
  shows "scan_loop split s = Return (True, s\<lparr>start := start s + nat a,
           pending := drop (nat a) (pending s), tok := Some t, empties := 0\<rparr>)"
  using scan_try_token [of split s a t] assms
  by (simp add: scan_loop.simps [of split s])

lemma scan_fill_eof:
  assumes "data (src s) = []" and "err s = None" and "buf_len s < maxTokenSize"
  shows "\<exists>s1. scan_fill s = More s1 \<and> pending s1 = pending s \<and> src s1 = src s
           \<and> err s1 = Some (case final (src s) of None \<Rightarrow> EOF | Some e \<Rightarrow> e)
           \<and> is_done s1 = is_done s"
proof -
  define s1 where "s1 = (if 0 < start s \<and> (start s + length (pending s) = buf_len s
                                   \<or> buf_len s div 2 < start s)
                then s\<lparr>start := 0\<rparr> else s)"
  define s2 where "s2 = (if start s1 + length (pending s1) = buf_len s1
                     then s1\<lparr>buf_len := min (if buf_len s1 * 2 = 0 then startBufSize
                                                else buf_len s1 * 2) maxTokenSize,
                              start := 0\<rparr>
                     else s1)"
  have a: "pending s1 = pending s" "src s1 = src s" "err s1 = err s" "is_done s1 = is_done s"
    "buf_len s1 = buf_len s"
    by (simp_all add: s1_def)
  have b: "pending s2 = pending s" "src s2 = src s" "err s2 = err s" "is_done s2 = is_done s"
    by (simp_all add: s2_def a)
  have "scan_fill s = More (setErr (case final (src s) of None \<Rightarrow> EOF | Some e \<Rightarrow> e)
                        (s2\<lparr>src := src s, pending := pending s\<rparr>))"
    using assms a b
    unfolding scan_fill_def s1_def [symmetric] Let_def s2_def [symmetric]
    by (simp add: Read_def)
  then show ?thesis
    using assms b by (simp add: setErr_def)
qed

lemma scan_loop_end:
  assumes "pending s = []" and "err s = None" and "data (src s) = []"
    and "final (src s) = None" and "buf_len s < maxTokenSize"
    and "split [] True = (0, None, None)"
  shows "\<exists>s'. scan_loop split s = Return (False, s') \<and> Err s' = None"
proof -
  have t: "scan_try split s = More s"
    using assms by (simp add: scan_try_def)
  from scan_fill_eof [of s] assms
  obtain s1 where f: "scan_fill s = More s1" and s1: "pending s1 = []" "err s1 = Some EOF"
    by auto
  have t1: "scan_try split s1 = Done False (s1\<lparr>tok := None, start := 0, pending := []\<rparr>)"
    using s1 assms(6) by (simp add: scan_try_def)
  show ?thesis
    using s1
    by (simp add: scan_loop.simps [of split s] scan_loop.simps [of split s1] t f t1 Err_def)
qed

lemma IndexByte_append: "c \<notin> set xs \<Longrightarrow> IndexByte (xs @ c # ys) c = int (length xs)"
  by (induction xs) (auto simp: Let_def)

lemma scanTreeEntry_record:
  assumes "CHR 0x00 \<notin> set h" and "length sha = 20"
  shows "scanTreeEntry (h @ CHR 0x00 # sha @ rest) e
           = (int (length h) + 21, Some (h @ CHR 0x00 # sha), None)"
proof -
  have n: "nat (int (length h) + 21) = length h + 21" by simp
  have "take (length h + 21) (h @ CHR 0x00 # sha @ rest) = h @ CHR 0x00 # sha"
    using assms(2) by simp
  with assms show ?thesis
    by (simp add: scanTreeEntry_def IndexByte_append n del: take_append)
qed

lemma parseTree_loop_stop:
  "Scan scanTreeEntry sc = Return (False, sc') \<Longrightarrow>
     parseTree_loop os t sc = Return (Some t, Err sc')"
  by (simp add: parseTree_loop.simps [of os t sc])

lemma parseTree_loop_entry:
  assumes "Scan scanTreeEntry sc = Return (True, sc')"
    and "Bytes sc' = h @ CHR 0x00 # sha" and "length sha = 20"
  shows "parseTree_loop os t sc =
           (case Fscanf_entry h of
              Inl e \<Rightarrow> Return (None, Some (Wrap e ''could not read tree entry''))
            | Inr (mode, name) \<Rightarrow>
                parseTree_loop os
                  (t\<lparr>Entries := Entries t @
                       [\<lparr>Name = name, Mode = mode, Entry_id = Sprintf_x sha\<rparr>]\<rparr>) sc')"
proof -
  have a: "length (Bytes sc') - 21 = length h" "length (Bytes sc') - 20 = Suc (length h)"
    "\<not> length (Bytes sc') < 21"
    using assms(2,3) by simp_all
  have b: "take (length h) (Bytes sc') = h" "drop (Suc (length h)) (Bytes sc') = sha"
    using assms(2) by simp_all
  show ?thesis
  proof (cases "Fscanf_entry h")
    case (Inl e)
    then show ?thesis
      by (subst parseTree_loop.simps) (simp add: assms(1) a b Let_def)
  next
    case (Inr p)
    then show ?thesis
      by (cases p, subst parseTree_loop.simps) (simp add: assms(1) a b Let_def)
  qed
qed

lemma parseTree_first:
  assumes "d \<noteq> []" and "length d \<le> startBufSize"
  shows "parseTree t \<lparr>data = d, sched = [], final = f\<rparr> os = parseTree_loop os t (fresh d f)"
proof -
  have "Scan scanTreeEntry (NewScanner \<lparr>data = d, sched = [], final = f\<rparr>)
          = Scan scanTreeEntry (fresh d f)"
    using Scan_first [OF assms, of scanTreeEntry f]
    by (simp add: Scan_def fresh_def NewScanner_def)
  then show ?thesis
    by (simp add: parseTree_def parseTree_loop.simps [of os t "NewScanner _"]
          parseTree_loop.simps [of os t "fresh d f"])
qed

lemma parseTree_loop_record:
  assumes "pending s = h @ CHR 0x00 # sha @ rest" and "CHR 0x00 \<notin> set h"
    and "length sha = 20" and "\<not> is_done s"
  shows "parseTree_loop os t s =
           (case Fscanf_entry h of
              Inl e \<Rightarrow> Return (None, Some (Wrap e ''could not read tree entry''))
            | Inr (mode, name) \<Rightarrow>
                parseTree_loop os
                  (t\<lparr>Entries := Entries t @
                       [\<lparr>Name = name, Mode = mode, Entry_id = Sprintf_x sha\<rparr>]\<rparr>)
                  (s\<lparr>start := start s + (length h + 21), pending := rest,
                     tok := Some (h @ CHR 0x00 # sha), empties := 0\<rparr>))"
proof -
  let ?s1 = "s\<lparr>start := start s + (length h + 21), pending := rest,
                tok := Some (h @ CHR 0x00 # sha), empties := 0\<rparr>"
  have sp: "scanTreeEntry (pending s) (err s \<noteq> None)
              = (int (length h) + 21, Some (h @ CHR 0x00 # sha), None)"
    using scanTreeEntry_record [OF assms(2,3)] assms(1) by simp
  have n: "nat (int (length h) + 21) = length h + 21" by simp
  have "scan_loop scanTreeEntry s = Return (True, s\<lparr>start := start s + nat (int (length h) + 21),
           pending := drop (nat (int (length h) + 21)) (pending s),
           tok := Some (h @ CHR 0x00 # sha), empties := 0\<rparr>)"
    by (rule scan_loop_token [of scanTreeEntry s, OF sp]) (use assms in simp_all)
  then have 1: "Scan scanTreeEntry s = Return (True, ?s1)"
    using assms by (simp add: Scan_def n)
  have b: "Bytes ?s1 = h @ CHR 0x00 # sha" by (simp add: Bytes_def)
  show ?thesis
    by (rule parseTree_loop_entry [OF 1 b assms(3)])
qed

lemma parseTree_loop_end:
  assumes "pending s = []" and "err s = None" and "data (src s) = []"
    and "final (src s) = None" and "buf_len s < maxTokenSize" and "\<not> is_done s"
  shows "parseTree_loop os t s = Return (Some t, None)"
proof -
  have "\<exists>s'. scan_loop scanTreeEntry s = Return (False, s') \<and> Err s' = None"
    by (rule scan_loop_end) (use assms in \<open>simp_all add: scanTreeEntry_def\<close>)
  then obtain s' where "Scan scanTreeEntry s = Return (False, s')" and "Err s' = None"
    using assms by (auto simp: Scan_def)
  with parseTree_loop_stop [of s s' os t] show ?thesis by simp
qed

lemma fresh_sel [simp]:
  "pending (fresh d f) = d" "err (fresh d f) = None" "data (src (fresh d f)) = []"
  "final (src (fresh d f)) = f" "buf_len (fresh d f) = startBufSize" "\<not> is_done (fresh d f)"
  "start (fresh d f) = 0"
  by (simp_all add: fresh_def)

section \<open>A small repository\<close>

text \<open>
  The data of the examples: a commit of the repository \<^verbatim>\<open>/repo\<close>, tree bodies as git
  writes them, and object stores.
\<close>

definition example_commit :: Commit where
  "example_commit = \<lparr>Repository = \<lparr>Root = ''/repo''\<rparr>,
     tree = ''4b825dc642cb6eb9a060e54bf8d69288fbee4904'',
     Commit_id = ''0f3a1c5e9d2b4a6c8e0f1a3b5c7d9e1f2a4b6c8d''\<rparr>"

definition two_entries :: "Entry list" where
  "two_entries =
     [\<lparr>Name = ''a.txt'', Mode = 100644, Entry_id = ''303132333435363738396162636465666768696a''\<rparr>,
      \<lparr>Name = ''sub'', Mode = 40000, Entry_id = ''4142434445464748494a4b4c4d4e4f5051525354''\<rparr>]"

definition example_tree :: "Entry list \<Rightarrow> Tree" where
  "example_tree es = \<lparr>Commit = example_commit,
     Tree_id = ''4b825dc642cb6eb9a060e54bf8d69288fbee4904'', Entries = es\<rparr>"

definition two_entry_body :: string where
  "two_entry_body = ''100644 a.txt'' @ CHR 0x00 # ''0123456789abcdefghij''
                    @ ''40000 sub'' @ CHR 0x00 # ''ABCDEFGHIJKLMNOPQRST''"

definition empty_store :: os_state where
  "empty_store = \<lparr>files = Map.empty, open_files = [], next_fd = 3\<rparr>"

definition hello_entries :: "Entry list" where
  "hello_entries =
     [\<lparr>Name = ''hello.txt'', Mode = 100644, Entry_id = ''303132333435363738396162636465666768696a''\<rparr>,
      \<lparr>Name = ''hello.txt'', Mode = 40000, Entry_id = ''4142434445464748494a4b4c4d4e4f5051525354''\<rparr>,
      \<lparr>Name = ''sub'', Mode = 40000, Entry_id = ''4142434445464748494a4b4c4d4e4f5051525354''\<rparr>]"

definition hello_store :: os_state where
  "hello_store = \<lparr>files =
       [''/repo/.git/objects/30/3132333435363738396162636465666768696a'' \<mapsto>
          Deflated \<lparr>data = ''blob 5'' @ CHR 0x00 # ''world'', sched = [], final = None\<rparr>,
        ''/repo/.git/objects/41/42434445464748494a4b4c4d4e4f5051525354'' \<mapsto>
          Deflated \<lparr>data = ''tree 0'' @ [CHR 0x00], sched = [], final = None\<rparr>],
     open_files = [], next_fd = 3\<rparr>"

definition new_commit :: Commit where
  "new_commit = \<lparr>Repository = \<lparr>Root = ''/repo''\<rparr>, tree = [],
     Commit_id = ''0f3a1c5e9d2b4a6c8e0f1a3b5c7d9e1f2a4b6c8d''\<rparr>"


definition garbage_store :: os_state where
  "garbage_store = \<lparr>files = [''/repo/.git/objects/ab/cdef'' \<mapsto> NotZlib ErrHeader,
                              ''/repo/.git/objects/ab/cd00'' \<mapsto>
                                 Deflated \<lparr>data = ''bogus'', sched = [], final = None\<rparr>],
                     open_files = [], next_fd = 3\<rparr>"

section \<open>Properties of the tree parser\<close>

lemma Scan_at_end:
  "Scan scanTreeEntry (NewScanner \<lparr>data = [], sched = ss, final = None\<rparr>)
     = Return (False, (NewScanner \<lparr>data = [], sched = ss, final = None\<rparr>)
                 \<lparr>buf_len := startBufSize, err := Some EOF\<rparr>)"
  by (simp add: Scan_def NewScanner_def scan_loop.simps scan_try_def scan_fill_def Read_def
        setErr_def scanTreeEntry_def maxTokenSize_def startBufSize_def)

text \<open>
  Claim C8. A tree body of zero bytes parses to the tree it was started with, no entry
  added and no error returned, whatever the reader's schedule; and the split function,
  called at the end of the input with no byte left, returns no token and no error.
\<close>

theorem C8_empty_body:
  "parseTree t \<lparr>data = [], sched = ss, final = None\<rparr> os = Return (Some t, None)
   \<and> scanTreeEntry [] True = (0, None, None)"
  by (simp add: parseTree_def parseTree_loop.simps Scan_at_end Err_def scanTreeEntry_def)

text \<open>
  Claim C10. On a body of twenty bytes with no null byte, \<^verbatim>\<open>bytes.IndexByte\<close> returns
  \<open>-1\<close>, the record length is 20 and the split function emits a token of 20 bytes;
  \<^verbatim>\<open>buf[:len(buf)-21]\<close> is then out of range and \<^verbatim>\<open>parseTree\<close> panics.
\<close>

theorem C10_short_token:
  "scanTreeEntry ''aaaaaaaaaaaaaaaaaaaa'' False = (20, Some ''aaaaaaaaaaaaaaaaaaaa'', None)
   \<and> parseTree t \<lparr>data = ''aaaaaaaaaaaaaaaaaaaa'', sched = [], final = None\<rparr> os = Panic"
  by (simp add: parseTree_def parseTree_loop.simps Scan_def NewScanner_def scan_loop.simps
        scan_try_def scan_fill_def Read_def setErr_def scanTreeEntry_def maxTokenSize_def
        startBufSize_def Bytes_def)

lemma Fscanf_entry_spaced: "Fscanf_entry ''100644 my file.txt'' = Inr (100644, ''my'')"
  by code_simp

lemma Sprintf_x_id: "Sprintf_x ''0123456789abcdefghij'' = ''303132333435363738396162636465666768696a''"
  by (simp add: Sprintf_x_def hexdigit_def byte_def)

text \<open>
  Claim C1. A tree record whose name holds a space: the verb \<^verbatim>\<open>%s\<close> reads one
  space-delimited word, so the entry of the file \<^verbatim>\<open>my file.txt\<close> is named \<^verbatim>\<open>my\<close>, not the
  whole of the bytes between the first space and the null byte. (The mode is read as the
  decimal number 100644 and the id is the lower-case hexadecimal text of the 20 bytes.)
\<close>

theorem C1_name_cut_at_space:
  "parseTree t \<lparr>data = ''100644 my file.txt'' @ CHR 0x00 # ''0123456789abcdefghij'',
                 sched = [], final = None\<rparr> os
     = Return (Some (t\<lparr>Entries := Entries t @
                 [\<lparr>Name = ''my'', Mode = 100644,
                   Entry_id = ''303132333435363738396162636465666768696a''\<rparr>]\<rparr>), None)"
proof -
  let ?h = "''100644 my file.txt''" and ?sha = "''0123456789abcdefghij''"
  have 1: "parseTree t \<lparr>data = ?h @ CHR 0x00 # ?sha, sched = [], final = None\<rparr> os
             = parseTree_loop os t (fresh (?h @ CHR 0x00 # ?sha @ []) None)"
    by (subst parseTree_first) (simp_all add: startBufSize_def)
  show ?thesis
    unfolding 1
    by (subst parseTree_loop_record [of _ ?h ?sha "[]"])
       (simp_all add: Fscanf_entry_spaced Sprintf_x_id parseTree_loop_end
          startBufSize_def maxTokenSize_def)
qed

text \<open>
  A record cut short, in a Scanner whose window already holds its null byte: the split
  function returns \<open>MalformedRecord\<close> at the end of the input and asks for more data
  before it; the loop of \<^verbatim>\<open>parseTree\<close> then stops with that error and the entries read so
  far.
\<close>

lemma cut_record_in_window:
  assumes "0 \<le> IndexByte d (CHR 0x00)" and "int (length d) < IndexByte d (CHR 0x00) + 21"
  shows "scanTreeEntry d True = (0, None, Some (MalformedRecord d))
    \<and> scanTreeEntry d False = (0, None, None)
    \<and> (\<forall>os t s. pending s = d \<and> err s = Some EOF \<and> \<not> is_done s \<longrightarrow>
          parseTree_loop os t s = Return (Some t, Some (MalformedRecord d)))
    \<and> (\<forall>s. pending s = d \<and> err s = None \<longrightarrow> scan_try scanTreeEntry s = More (s\<lparr>tok := None\<rparr>))"
proof -
  have ne: "d \<noteq> []" using assms(1) by auto
  have t: "scanTreeEntry d True = (0, None, Some (MalformedRecord d))"
    using assms ne by (simp add: scanTreeEntry_def)
  have f: "scanTreeEntry d False = (0, None, None)"
    using assms by (simp add: scanTreeEntry_def)
  have p: "parseTree_loop os t s = Return (Some t, Some (MalformedRecord d))"
    if "pending s = d" "err s = Some EOF" "\<not> is_done s" for os t s
  proof -
    have "scan_try scanTreeEntry s = Done False (setErr (MalformedRecord d) s)"
      using that t by (simp add: scan_try_def)
    then have "Scan scanTreeEntry s = Return (False, setErr (MalformedRecord d) s)"
      using that by (simp add: Scan_def scan_loop.simps [of scanTreeEntry s])
    from parseTree_loop_stop [OF this] that show ?thesis
      by (simp add: Err_def setErr_def)
  qed
  have m: "scan_try scanTreeEntry s = More (s\<lparr>tok := None\<rparr>)"
    if "pending s = d" "err s = None" for s
    using that f ne by (simp add: scan_try_def)
  from t f p m show ?thesis by blast
qed

lemma IndexByte_absent: "c \<notin> set d \<Longrightarrow> IndexByte d c = - 1"
  by (induction d) (auto simp: Let_def)

lemma parseTree_short_token:
  assumes rd: "Read rd startBufSize = (chunk, None, rd')"
    and nonul: "CHR 0x00 \<notin> set chunk" and len: "20 \<le> length chunk"
  shows "parseTree t rd os = Panic"
proof -
  let ?s0 = "NewScanner rd"
  let ?s1 = "\<lparr>src = rd', buf_len = startBufSize, start = 0, pending = chunk, tok = None,
             err = None, empties = 0, is_done = False\<rparr>"
  let ?s2 = "?s1\<lparr>start := 20, pending := drop 20 chunk, tok := Some (take 20 chunk)\<rparr>"
  have ne: "chunk \<noteq> []" using len by auto
  have t0: "scan_try scanTreeEntry ?s0 = More ?s0"
    by (simp add: scan_try_def NewScanner_def)
  have f0: "scan_fill ?s0 = More ?s1"
    using rd ne
    by (simp add: scan_fill_def NewScanner_def maxTokenSize_def startBufSize_def)
  have sp: "scanTreeEntry chunk False = (20, Some (take 20 chunk), None)"
    using len by (simp add: scanTreeEntry_def IndexByte_absent [OF nonul])
  have t1: "scan_try scanTreeEntry ?s1 = Done True ?s2"
    using sp len ne by (simp add: scan_try_def)
  have "Scan scanTreeEntry ?s0 = Return (True, ?s2)"
    by (simp add: Scan_def scan_loop.simps [of _ ?s0] scan_loop.simps [of _ ?s1] t0 f0 t1)
       (simp add: NewScanner_def)
  moreover have "length (Bytes ?s2) < 21"
    using len by (simp add: Bytes_def)
  ultimately show ?thesis
    by (simp add: parseTree_def parseTree_loop.simps [of os t ?s0] Let_def)
qed

text \<open>
  Claim C2. A record with four bytes after its null byte at the end of the input, and 25
  (or 5000) bytes before it. The first read ends before the null byte (a read of 25
  bytes; a read that fills the buffer of 4096 bytes), so the window holds 20 or more
  bytes and no null byte: \<^verbatim>\<open>bytes.IndexByte\<close> returns \<open>-1\<close>, the split function emits a
  token of 20 bytes, and \<^verbatim>\<open>parseTree\<close> panics on \<^verbatim>\<open>buf[:len(buf)-21]\<close> instead of
  returning the malformed-record error.
\<close>

theorem C2_cut_record_panics:
  "parseTree t \<lparr>data = replicate 25 (CHR ''a'') @ CHR 0x00 # ''bbbb'', sched = [24],
                 final = None\<rparr> os = Panic
   \<and> parseTree t \<lparr>data = replicate 5000 (CHR ''a'') @ CHR 0x00 # ''bbbb'', sched = [],
                   final = None\<rparr> os = Panic"
proof -
  have 1: "Read \<lparr>data = replicate 25 (CHR ''a'') @ CHR 0x00 # ''bbbb'', sched = [24],
                 final = None\<rparr> startBufSize
      = (replicate 25 (CHR ''a''), None,
         \<lparr>data = CHR 0x00 # ''bbbb'', sched = [], final = None\<rparr>)"
    by (simp add: Read_def startBufSize_def)
  have 2: "Read \<lparr>data = replicate 5000 (CHR ''a'') @ CHR 0x00 # ''bbbb'', sched = [],
                 final = None\<rparr> startBufSize
      = (replicate 4096 (CHR ''a''), None,
         \<lparr>data = replicate 904 (CHR ''a'') @ CHR 0x00 # ''bbbb'', sched = [], final = None\<rparr>)"
    by (simp add: Read_def startBufSize_def)
  show ?thesis
    using parseTree_short_token [OF 1, of t os] parseTree_short_token [OF 2, of t os]
    by simp
qed

lemma parseTree_loop_os: "parseTree_loop os t sc = parseTree_loop os' t sc"
proof (induction os t sc rule: parseTree_loop.induct)
  case (1 os t sc)
  show ?case
  proof (cases "Scan scanTreeEntry sc")
    case Panic
    then show ?thesis by (simp add: parseTree_loop.simps [of _ t sc])
  next
    case (Return x)
    obtain ok sc' where x: "x = (ok, sc')" by (cases x)
    show ?thesis
    proof (cases "ok \<and> \<not> length (Bytes sc') < 21")
      case False
      with Return x show ?thesis
        by (auto simp: parseTree_loop.simps [of _ t sc] Let_def)
    next
      case True
      show ?thesis
      proof (cases "Fscanf_entry (take (length (Bytes sc') - 21) (Bytes sc'))")
        case (Inl e)
        with Return x True show ?thesis
          by (simp add: parseTree_loop.simps [of _ t sc] Let_def)
      next
        case (Inr p)
        obtain mode name where p: "p = (mode, name)" by (cases p)
        from True have ok: "\<not> \<not> ok" and len: "\<not> length (Bytes sc') < 21" by simp_all
        note IH = "1.IH" [OF Return x [symmetric] ok refl len refl Inr p [symmetric] refl refl]
        from Return x True Inr p IH show ?thesis
          by (simp add: parseTree_loop.simps [of _ t sc] Let_def)
      qed
    qed
  qed
qed

lemma Fscanf_entry_a: "Fscanf_entry ''100644 a.txt'' = Inr (100644, ''a.txt'')"
  by code_simp

lemma Fscanf_entry_sub: "Fscanf_entry ''40000 sub'' = Inr (40000, ''sub'')"
  by code_simp

lemma Sprintf_x_id2:
  "Sprintf_x ''ABCDEFGHIJKLMNOPQRST'' = ''4142434445464748494a4b4c4d4e4f5051525354''"
  by (simp add: Sprintf_x_def hexdigit_def byte_def)

lemma parse_two_entries:
  "parseTree (example_tree []) \<lparr>data = two_entry_body, sched = [], final = None\<rparr> os
     = Return (Some (example_tree two_entries), None)"
proof -
  let ?h1 = "''100644 a.txt''" and ?s1 = "''0123456789abcdefghij''"
  let ?h2 = "''40000 sub''" and ?s2 = "''ABCDEFGHIJKLMNOPQRST''"
  have 1: "parseTree (example_tree []) \<lparr>data = two_entry_body, sched = [], final = None\<rparr> os
      = parseTree_loop os (example_tree [])
          (fresh (?h1 @ CHR 0x00 # ?s1 @ (?h2 @ CHR 0x00 # ?s2 @ [])) None)"
    unfolding two_entry_body_def
    by (subst parseTree_first) (simp_all add: startBufSize_def)
  show ?thesis
    unfolding 1
    apply (subst parseTree_loop_record [of _ ?h1 ?s1])
        apply (simp_all add: Fscanf_entry_a Sprintf_x_id)
    apply (subst parseTree_loop_record [of _ ?h2 ?s2 "[]"])
        apply (simp_all add: Fscanf_entry_sub Sprintf_x_id2)
    apply (subst parseTree_loop_end)
          apply (simp_all add: startBufSize_def maxTokenSize_def example_tree_def
                two_entries_def)
    done
qed

text \<open>
  Claim C7. The result of \<^verbatim>\<open>parseTree\<close> is the same in every state of the operating
  system: no entry is left out because its object file is absent. Resolving an id whose
  object file does not exist fails at \<^verbatim>\<open>os.Open\<close> with the path error \<^verbatim>\<open>os.ErrNotExist\<close>,
  for a blob and for a tree.
\<close>

theorem C7_entries_listed_without_objects:
  "parseTree t r os = parseTree t r os'
   \<and> (2 \<le> length sha \<and>
      files os (Join [Root (Repository (Commit t)), ''.git'', ''objects'', take 2 sha, drop 2 sha])
        = None \<longrightarrow>
      readBlob t sha os =
        Return (Inl (WithStack (PathError ''open''
          (Join [Root (Repository (Commit t)), ''.git'', ''objects'', take 2 sha, drop 2 sha])
          ErrNotExist)), os)
      \<and> readTree (Commit t) sha os =
        Return ((None, Some (WithStack (PathError ''open''
          (Join [Root (Repository (Commit t)), ''.git'', ''objects'', take 2 sha, drop 2 sha])
          ErrNotExist))), os))"
proof -
  have a: "parseTree t r os = parseTree t r os'"
    unfolding parseTree_def by (rule parseTree_loop_os)
  have b: "readBlob t sha os =
        Return (Inl (WithStack (PathError ''open''
          (Join [Root (Repository (Commit t)), ''.git'', ''objects'', take 2 sha, drop 2 sha])
          ErrNotExist)), os)
      \<and> readTree (Commit t) sha os =
        Return ((None, Some (WithStack (PathError ''open''
          (Join [Root (Repository (Commit t)), ''.git'', ''objects'', take 2 sha, drop 2 sha])
          ErrNotExist))), os)"
    if "2 \<le> length sha" and "files os (Join [Root (Repository (Commit t)), ''.git'', ''objects'',
          take 2 sha, drop 2 sha]) = None"
    using that
    by (simp add: readBlob_def readTree_def readObject_def os_Open_def Let_def
          del: Join.simps)
  from a b show ?thesis by blast
qed

theorem C7_witness:
  "parseTree (example_tree []) \<lparr>data = two_entry_body, sched = [], final = None\<rparr> empty_store
     = Return (Some (example_tree two_entries), None)
   \<and> Tree_Blob (example_tree two_entries) ''a.txt'' empty_store
     = Return (Inl (WithStack (PathError ''open''
         ''/repo/.git/objects/30/3132333435363738396162636465666768696a'' ErrNotExist)),
         empty_store)"
proof -
  have "files empty_store (Join [Root (Repository (Commit (example_tree two_entries))), ''.git'',
          ''objects'', take 2 ''303132333435363738396162636465666768696a'',
          drop 2 ''303132333435363738396162636465666768696a'']) = None"
    by (simp add: empty_store_def)
  with C7_entries_listed_without_objects [of "example_tree two_entries" _ empty_store _
        "''303132333435363738396162636465666768696a''"]
  have "readBlob (example_tree two_entries) ''303132333435363738396162636465666768696a''
          empty_store
        = Return (Inl (WithStack (PathError ''open''
           ''/repo/.git/objects/30/3132333435363738396162636465666768696a'' ErrNotExist)),
           empty_store)"
    by (simp add: example_tree_def example_commit_def)
  moreover have "Tree_Blob (example_tree two_entries) ''a.txt'' empty_store
      = readBlob (example_tree two_entries) ''303132333435363738396162636465666768696a''
          empty_store"
    by (simp add: Tree_Blob_def example_tree_def two_entries_def)
  ultimately show ?thesis
    using parse_two_entries [of empty_store] by simp
qed

section \<open>Properties of the navigation\<close>

lemma Blob_loop_none:
  "\<forall>e\<in>set es. Name e \<noteq> name \<Longrightarrow>
     Blob_loop t name es os = Return (Inl (PathError ''open'' name ErrNotExist), os)"
  by (induction es) auto

lemma Tree_loop_none:
  "\<forall>e\<in>set es. Name e \<noteq> name \<Longrightarrow>
     Tree_loop t name es os = Return ((None, Some (PathError ''open'' name ErrNotExist)), os)"
  by (induction es) auto

lemma Blob_loop_first:
  "\<forall>x\<in>set pre. Name x \<noteq> Name e \<Longrightarrow>
     Blob_loop t (Name e) (pre @ e # post) os = readBlob t (Entry_id e) os"
  by (induction pre) auto

lemma Tree_loop_first:
  "\<forall>x\<in>set pre. Name x \<noteq> Name e \<Longrightarrow>
     Tree_loop t (Name e) (pre @ e # post) os = readTree (Commit t) (Entry_id e) os"
  by (induction pre) auto

text \<open>
  Claim C5. \<^verbatim>\<open>Tree.Blob\<close> and \<^verbatim>\<open>Tree.Tree\<close> search the entries in their order for a name
  equal to the one given: with no such entry they fail with the path error
  \<^verbatim>\<open>os.ErrNotExist\<close>; otherwise they resolve the id of the first entry of that name,
  and \<^verbatim>\<open>readBlob\<close> (\<^verbatim>\<open>readTree\<close>) fails with \<open>ExpectedKind\<close> when the header of the object
  declares a kind other than \<^verbatim>\<open>blob\<close> (\<^verbatim>\<open>tree\<close>).
\<close>

theorem C5_lookup_by_name:
  "((\<forall>e\<in>set (Entries t). Name e \<noteq> name) \<longrightarrow>
      Tree_Blob t name os = Return (Inl (PathError ''open'' name ErrNotExist), os)
      \<and> Tree_Tree t name os = Return ((None, Some (PathError ''open'' name ErrNotExist)), os))
   \<and> (Entries t = pre @ e # post \<and> (\<forall>x\<in>set pre. Name x \<noteq> name) \<and> Name e = name \<longrightarrow>
      Tree_Blob t name os = readBlob t (Entry_id e) os
      \<and> Tree_Tree t name os = readTree (Commit t) (Entry_id e) os)
   \<and> (readObject (Repository (Commit t)) sha os = Return (Inr (h, rc), os1)
        \<and> kind h \<noteq> ''blob'' \<longrightarrow>
      readBlob t sha os = Return (Inl (ExpectedKind ''blob'' (kind h)), os1))
   \<and> (readObject (Repository (Commit t)) sha os = Return (Inr (h, rc), os1)
        \<and> kind h \<noteq> ''tree'' \<longrightarrow>
      readTree (Commit t) sha os =
        Return ((None, Some (ExpectedKind ''tree'' (kind h))), Close rc os1))"
  by (auto simp: Tree_Blob_def Tree_Tree_def Blob_loop_none Tree_loop_none Blob_loop_first
        Tree_loop_first readBlob_def readTree_def)

lemma header_blob_world:
  "Fscanf_header None (runes None (''blob 5'' @ CHR 0x00 # ''world''))
     = Inr ((''blob'', 5), runes None ''world'')"
  "length (raw (runes None (''blob 5'' @ CHR 0x00 # ''world''))) - length (raw (runes None ''world'')) = 7"
  by code_simp+

lemma header_tree_empty:
  "Fscanf_header None (runes None (''tree 0'' @ [CHR 0x00])) = Inr ((''tree'', 0), [])"
  "length (raw (runes None (''tree 0'' @ [CHR 0x00]))) = 7"
  by code_simp+

lemma read_hello_blob:
  "readObject \<lparr>Root = ''/repo''\<rparr> ''303132333435363738396162636465666768696a'' hello_store
     = Return (Inr (\<lparr>kind = ''blob'', length_h = 5\<rparr>,
                    \<lparr>Reader = \<lparr>data = ''world'', sched = [], final = None\<rparr>, Closer = 3\<rparr>),
               hello_store\<lparr>open_files := [3], next_fd := 4\<rparr>)"
  using header_blob_world
  by (simp add: readObject_def os_Open_def zlib_NewReader_def hello_store_def raw_def)

lemma read_hello_tree:
  "readObject \<lparr>Root = ''/repo''\<rparr> ''4142434445464748494a4b4c4d4e4f5051525354'' hello_store
     = Return (Inr (\<lparr>kind = ''tree'', length_h = 0\<rparr>,
                    \<lparr>Reader = \<lparr>data = [], sched = [], final = None\<rparr>, Closer = 3\<rparr>),
               hello_store\<lparr>open_files := [3], next_fd := 4\<rparr>)"
  using header_tree_empty
  by (simp add: readObject_def os_Open_def zlib_NewReader_def hello_store_def raw_def)

theorem C5_witness:
  "Tree_Blob (example_tree hello_entries) ''hello.txt'' hello_store
     = Return (Inr \<lparr>Size = 5, ReadCloser =
                 \<lparr>Reader = \<lparr>data = ''world'', sched = [], final = None\<rparr>, Closer = 3\<rparr>\<rparr>,
               hello_store\<lparr>open_files := [3], next_fd := 4\<rparr>)
   \<and> Tree_Blob (example_tree hello_entries) ''missing.txt'' hello_store
     = Return (Inl (PathError ''open'' ''missing.txt'' ErrNotExist), hello_store)
   \<and> Tree_Blob (example_tree hello_entries) ''sub'' hello_store
     = Return (Inl (ExpectedKind ''blob'' ''tree''), hello_store\<lparr>open_files := [3], next_fd := 4\<rparr>)
   \<and> Tree_Tree (example_tree hello_entries) ''hello.txt'' hello_store
     = Return ((None, Some (ExpectedKind ''tree'' ''blob'')),
               hello_store\<lparr>open_files := [], next_fd := 4\<rparr>)"
proof -
  let ?t = "example_tree hello_entries"
  let ?b = "''303132333435363738396162636465666768696a''"
  let ?d = "''4142434445464748494a4b4c4d4e4f5051525354''"
  have r: "Repository (Commit ?t) = \<lparr>Root = ''/repo''\<rparr>"
    by (simp add: example_tree_def example_commit_def)
  have e: "Entries ?t = [] @ hd hello_entries # tl hello_entries"
    "Name (hd hello_entries) = ''hello.txt''" "Entry_id (hd hello_entries) = ?b"
    by (simp_all add: example_tree_def hello_entries_def)
  have 1: "Tree_Blob ?t ''hello.txt'' hello_store = readBlob ?t ?b hello_store"
    and 4: "Tree_Tree ?t ''hello.txt'' hello_store = readTree (Commit ?t) ?b hello_store"
    using C5_lookup_by_name [of ?t "''hello.txt''" hello_store "[]" "hd hello_entries"
        "tl hello_entries"] e
    by simp_all
  have 2: "Tree_Blob ?t ''missing.txt'' hello_store
             = Return (Inl (PathError ''open'' ''missing.txt'' ErrNotExist), hello_store)"
    using C5_lookup_by_name [of ?t "''missing.txt''" hello_store]
    by (simp add: example_tree_def hello_entries_def)
  have 3: "readBlob ?t ?d hello_store
             = Return (Inl (ExpectedKind ''blob'' ''tree''),
                       hello_store\<lparr>open_files := [3], next_fd := 4\<rparr>)"
    using C5_lookup_by_name [of ?t _ hello_store _ _ _ ?d "\<lparr>kind = ''tree'', length_h = 0\<rparr>"]
      read_hello_tree r
    by simp
  have 5: "readTree (Commit ?t) ?b hello_store
             = Return ((None, Some (ExpectedKind ''tree'' ''blob'')),
                       hello_store\<lparr>open_files := [], next_fd := 4\<rparr>)"
    using C5_lookup_by_name [of ?t _ hello_store _ _ _ ?b "\<lparr>kind = ''blob'', length_h = 5\<rparr>"]
      read_hello_blob r
    by (simp add: Close_def)
  have 6: "readBlob ?t ?b hello_store
     = Return (Inr \<lparr>Size = 5, ReadCloser =
                 \<lparr>Reader = \<lparr>data = ''world'', sched = [], final = None\<rparr>, Closer = 3\<rparr>\<rparr>,
               hello_store\<lparr>open_files := [3], next_fd := 4\<rparr>)"
    by (simp add: readBlob_def r read_hello_blob)
  have 7: "Tree_Blob ?t ''sub'' hello_store = readBlob ?t ?d hello_store"
    by (simp add: Tree_Blob_def example_tree_def hello_entries_def)
  show ?thesis
    by (simp only: 1 2 3 4 5 6 7 simp_thms)
qed

section \<open>Properties of readObject\<close>

lemma Fscanf_header_bogus: "Fscanf_header None (runes None ''bogus'') = Inl EOF"
  by code_simp

text \<open>
  Claim C9. \<^verbatim>\<open>readObject\<close> on a file that is no zlib stream, and on one whose header
  does not parse: the error is returned, no \<^verbatim>\<open>ReadCloser\<close> is, and the handle 3 that
  \<^verbatim>\<open>os.Open\<close> took is still among the open files.
\<close>

theorem C9_handle_left_open:
  "readObject \<lparr>Root = ''/repo''\<rparr> ''abcdef'' garbage_store
     = Return (Inl (WithStack ErrHeader), garbage_store\<lparr>open_files := [3], next_fd := 4\<rparr>)
   \<and> readObject \<lparr>Root = ''/repo''\<rparr> ''abcd00'' garbage_store
     = Return (Inl (Wrap EOF ''cannot parse header''),
               garbage_store\<lparr>open_files := [3], next_fd := 4\<rparr>)"
  by (simp add: readObject_def os_Open_def zlib_NewReader_def garbage_store_def
        Fscanf_header_bogus)

section \<open>Properties of the commit parser\<close>

lemma ScanLines_line:
  assumes "CHR 0x0A \<notin> set l"
  shows "ScanLines (l @ CHR 0x0A # rest) e = (int (length l) + 1, Some (dropCR l), None)"
  using assms by (simp add: ScanLines_def IndexByte_append)

lemma parseCommit_loop_stop:
  "Scan ScanLines sc = Return (False, sc') \<Longrightarrow> parseCommit_loop c sc = Return (Some c, Err sc')"
  by (simp add: parseCommit_loop.simps [of c sc])

lemma parseCommit_loop_step:
  "Scan ScanLines sc = Return (True, sc') \<Longrightarrow>
     parseCommit_loop c sc = parseCommit_loop (commit_line c (Bytes sc')) sc'"
  by (simp add: parseCommit_loop.simps [of c sc])

lemma parseCommit_loop_line:
  assumes "pending s = l @ CHR 0x0A # rest" and "CHR 0x0A \<notin> set l" and "\<not> is_done s"
  shows "parseCommit_loop c s =
           parseCommit_loop (commit_line c (dropCR l))
             (s\<lparr>start := start s + (length l + 1), pending := rest,
                tok := Some (dropCR l), empties := 0\<rparr>)"
proof -
  let ?s1 = "s\<lparr>start := start s + (length l + 1), pending := rest,
                tok := Some (dropCR l), empties := 0\<rparr>"
  have sp: "ScanLines (pending s) (err s \<noteq> None) = (int (length l) + 1, Some (dropCR l), None)"
    using ScanLines_line [OF assms(2)] assms(1) by simp
  have n: "nat (int (length l) + 1) = length l + 1" by simp
  have "scan_loop ScanLines s = Return (True, s\<lparr>start := start s + nat (int (length l) + 1),
           pending := drop (nat (int (length l) + 1)) (pending s),
           tok := Some (dropCR l), empties := 0\<rparr>)"
    by (rule scan_loop_token [of ScanLines s, OF sp]) (use assms in simp_all)
  then have 1: "Scan ScanLines s = Return (True, ?s1)"
    using assms by (simp add: Scan_def n)
  show ?thesis
    using parseCommit_loop_step [OF 1, of c] by (simp add: Bytes_def)
qed

lemma parseCommit_loop_end:
  assumes "pending s = []" and "err s = None" and "data (src s) = []"
    and "final (src s) = None" and "buf_len s < maxTokenSize" and "\<not> is_done s"
  shows "parseCommit_loop c s = Return (Some c, None)"
proof -
  have "\<exists>s'. scan_loop ScanLines s = Return (False, s') \<and> Err s' = None"
    by (rule scan_loop_end) (use assms in \<open>simp_all add: ScanLines_def\<close>)
  then obtain s' where "Scan ScanLines s = Return (False, s')" and "Err s' = None"
    using assms by (auto simp: Scan_def)
  with parseCommit_loop_stop [of s s' c] show ?thesis by simp
qed

lemma parseCommit_loop_lines:
  assumes "\<forall>l\<in>set ls. CHR 0x0A \<notin> set l"
    and "pending s = commit_body_of ls" and "err s = None" and "data (src s) = []"
    and "final (src s) = None" and "buf_len s < maxTokenSize" and "\<not> is_done s"
  shows "parseCommit_loop c s = Return (Some (foldl commit_line c (map dropCR ls)), None)"
  using assms
proof (induction ls arbitrary: c s)
  case Nil
  then show ?case by (simp add: commit_body_of_def parseCommit_loop_end)
next
  case (Cons l ls)
  let ?s1 = "s\<lparr>start := start s + (length l + 1), pending := commit_body_of ls,
                tok := Some (dropCR l), empties := 0\<rparr>"
  have p: "pending s = l @ CHR 0x0A # commit_body_of ls"
    using Cons.prems(2) by (simp add: commit_body_of_def)
  have "parseCommit_loop c s = parseCommit_loop (commit_line c (dropCR l)) ?s1"
    by (rule parseCommit_loop_line [OF p]) (use Cons.prems in simp_all)
  also have "\<dots> = Return (Some (foldl commit_line (commit_line c (dropCR l)) (map dropCR ls)), None)"
    by (rule Cons.IH) (use Cons.prems in simp_all)
  finally show ?case by simp
qed

lemma parseCommit_first:
  assumes "d \<noteq> []" and "length d \<le> startBufSize"
  shows "parseCommit c \<lparr>data = d, sched = [], final = f\<rparr> = parseCommit_loop c (fresh d f)"
proof -
  have "Scan ScanLines (NewScanner \<lparr>data = d, sched = [], final = f\<rparr>)
          = Scan ScanLines (fresh d f)"
    using Scan_first [OF assms, of ScanLines f]
    by (simp add: Scan_def fresh_def NewScanner_def)
  then show ?thesis
    by (simp add: parseCommit_def parseCommit_loop.simps [of c "NewScanner _"]
          parseCommit_loop.simps [of c "fresh d f"])
qed

lemma parseCommit_lines:
  assumes "\<forall>l\<in>set ls. CHR 0x0A \<notin> set l" and "length (commit_body_of ls) \<le> startBufSize"
  shows "parseCommit c \<lparr>data = commit_body_of ls, sched = [], final = None\<rparr>
           = Return (Some (foldl commit_line c (map dropCR ls)), None)"
proof (cases "ls = []")
  case True
  have "\<exists>s'. scan_loop ScanLines (NewScanner \<lparr>data = [], sched = [], final = None\<rparr>)
           = Return (False, s') \<and> Err s' = None"
    by (rule scan_loop_end) (simp_all add: NewScanner_def ScanLines_def maxTokenSize_def)
  then obtain s' where "Scan ScanLines (NewScanner \<lparr>data = [], sched = [], final = None\<rparr>)
      = Return (False, s')" and "Err s' = None"
    by (auto simp: Scan_def NewScanner_def)
  with parseCommit_loop_stop [of _ s' c] True show ?thesis
    by (simp add: parseCommit_def commit_body_of_def)
next
  case False
  then have ne: "commit_body_of ls \<noteq> []"
    by (cases ls) (simp_all add: commit_body_of_def)
  show ?thesis
    unfolding parseCommit_first [OF ne assms(2)]
    by (rule parseCommit_loop_lines [OF assms(1)])
       (simp_all add: startBufSize_def maxTokenSize_def)
qed

lemma parseCommit_loop_fields:
  "parseCommit_loop c sc = Return (oc, e) \<Longrightarrow>
     \<exists>c'. oc = Some c' \<and> Repository c' = Repository c \<and> Commit_id c' = Commit_id c"
proof (induction c sc rule: parseCommit_loop.induct)
  case (1 c sc)
  show ?case
  proof (cases "Scan ScanLines sc")
    case Panic
    with "1.prems" show ?thesis by (simp add: parseCommit_loop.simps [of c sc])
  next
    case (Return x)
    obtain ok sc' where x: "x = (ok, sc')" by (cases x)
    show ?thesis
    proof (cases ok)
      case False
      with Return x "1.prems" show ?thesis by (auto simp: parseCommit_loop.simps [of c sc])
    next
      case True
      then have ok: "\<not> \<not> ok" by simp
      from Return x True "1.prems"
      have "parseCommit_loop (commit_line c (Bytes sc')) sc' = Return (oc, e)"
        by (simp add: parseCommit_loop.simps [of c sc])
      from "1.IH" [OF Return x [symmetric] ok this] show ?thesis
        by (auto simp: commit_line_def Let_def split: if_splits)
    qed
  qed
qed

lemma fold_shaking:
  "foldl commit_line new_commit
     (map dropCR [''tree 4b825dc642cb6eb9a060e54bf8d69288fbee4904'',
        ''author A U Thor <author@example.com> 1478000000 +0000'', [],
        ''tree shaking for the win''])
   = new_commit\<lparr>tree := ''shaking for the win''\<rparr>"
  by code_simp

lemma shaking_ok:
  "\<forall>l\<in>set [''tree 4b825dc642cb6eb9a060e54bf8d69288fbee4904'',
        ''author A U Thor <author@example.com> 1478000000 +0000'', [],
        ''tree shaking for the win'']. CHR 0x0A \<notin> set l"
  "length (commit_body_of [''tree 4b825dc642cb6eb9a060e54bf8d69288fbee4904'',
        ''author A U Thor <author@example.com> 1478000000 +0000'', [],
        ''tree shaking for the win'']) \<le> startBufSize"
  by code_simp+

text \<open>
  Claim C6. A commit whose message holds a line that starts with the word \<^verbatim>\<open>tree\<close>. The
  loop of \<^verbatim>\<open>parseCommit\<close> does not stop at the blank line that ends the fields: it takes
  the message line for a \<^verbatim>\<open>tree\<close> field too, and the commit's tree is the text of that
  line, not the id that the \<^verbatim>\<open>tree\<close> field gives.
\<close>

theorem C6_message_line_taken:
  "parseCommit new_commit
     \<lparr>data = commit_body_of [''tree 4b825dc642cb6eb9a060e54bf8d69288fbee4904'',
        ''author A U Thor <author@example.com> 1478000000 +0000'', [],
        ''tree shaking for the win''], sched = [], final = None\<rparr>
   = Return (Some (new_commit\<lparr>tree := ''shaking for the win''\<rparr>), None)"
  using parseCommit_lines [OF shaking_ok, of new_commit]
  by (simp only: fold_shaking)

section \<open>Properties of the header parser\<close>

text \<open>
  The shape of the input that \<^verbatim>\<open>Fscanf\<close> accepts for the format of the header, on the
  runes of the stream: blanks (white space other than a newline), a word of runes that
  are no white space, one or more blanks, at most one sign, decimal digits, and the rune
  0. \<open>enc\<close> is the text of a run of runes, \<open>signed_value\<close> the number that a sign and
  digits denote, \<open>asc\<close> the rune of an ASCII byte.
\<close>

definition blank :: "rune \<times> string \<Rightarrow> bool" where
  "blank x \<longleftrightarrow> isSpace (fst x) \<and> fst x \<noteq> 0x0A"

definition enc :: "items \<Rightarrow> string" where
  "enc its = concat (map (\<lambda>x. EncodeRune (fst x)) its)"

definition sign_ok :: "items \<Rightarrow> bool" where
  "sign_ok sg \<longleftrightarrow> sg = [] \<or> (\<exists>x. sg = [x] \<and> isSign (fst x))"

definition signed_value :: "items \<Rightarrow> items \<Rightarrow> int" where
  "signed_value sg ds =
     (if map fst sg = [0x2D] then - int (digits_val (enc ds)) else int (digits_val (enc ds)))"


definition asc :: "char \<Rightarrow> rune \<times> string" where
  "asc c = (byte c, [c])"

lemma isSpace_nl [simp]: "isSpace 0x0A" "isSpace 0x0D" "isSpace 10" "isSpace 13"
  by (simp_all add: isSpace_def)

lemma SkipSpace_blank: "blank x \<Longrightarrow> SkipSpace fin (x # r) = SkipSpace fin r"
  by (cases x) (auto simp: blank_def)

lemma SkipSpace_blanks: "\<forall>x\<in>set sp. blank x \<Longrightarrow> SkipSpace fin (sp @ r) = SkipSpace fin r"
  by (induction sp) (simp_all add: SkipSpace_blank)

lemma SkipSpace_stop: "r \<noteq> [] \<Longrightarrow> \<not> isSpace (fst (hd r)) \<Longrightarrow> SkipSpace fin r = Inr r"
  by (cases r; cases "hd r") (auto simp: isSpace_def)


lemma token_prefix:
  "\<forall>x\<in>set k. f (fst x) \<Longrightarrow> r \<noteq> [] \<Longrightarrow> \<not> f (fst (hd r)) \<Longrightarrow>
     token fin f (k @ r) = Inr (enc k, r)"
proof (induction k)
  case Nil
  then show ?case by (cases r; cases "hd r") (auto simp: enc_def)
next
  case (Cons x k)
  then show ?case by (cases x) (simp add: enc_def)
qed


lemma skip_blanks_prefix:
  "\<forall>x\<in>set sp. blank x \<Longrightarrow> r \<noteq> [] \<Longrightarrow> \<not> blank (hd r) \<Longrightarrow>
     skip_blanks fin (sp @ r) = Inr r"
proof (induction sp)
  case Nil
  then show ?case by (cases r; cases "hd r") (auto simp: blank_def)
next
  case (Cons x sp)
  then show ?case by (cases x) (simp add: blank_def)
qed


lemma hd_append_ne: "k \<noteq> [] \<Longrightarrow> hd (k @ r) = hd k"
  by simp

lemma convertString_word:
  assumes "k \<noteq> []" and "\<forall>x\<in>set k. notSpace (fst x)" and "r \<noteq> []" and "isSpace (fst (hd r))"
  shows "convertString fin (k @ r) = Inr (enc k, r)"
proof -
  have "\<not> isSpace (fst (hd (k @ r)))"
    using assms(1,2) by (cases k) (auto simp: notSpace_def)
  then have s: "SkipSpace fin (k @ r) = Inr (k @ r)"
    using assms(1) by (intro SkipSpace_stop) simp_all
  have n: "notEOF fin (k @ r) = Inr (k @ r)"
    using assms(1) by (cases k) (simp_all add: notEOF_def)
  have t: "token fin notSpace (k @ r) = Inr (enc k, r)"
    by (rule token_prefix) (use assms in \<open>simp_all add: notSpace_def\<close>)
  show ?thesis by (simp add: convertString_def s n t)
qed


lemma scanNumber_digits:
  assumes "ds \<noteq> []" and "\<forall>x\<in>set ds. isDigit (fst x)" and "r \<noteq> []" and "\<not> isDigit (fst (hd r))"
  shows "scanNumber fin (ds @ r) = Inr (enc ds, r)"
proof -
  obtain d ds' where ds: "ds = d # ds'" using assms(1) by (cases ds) auto
  obtain c b where d: "d = (c, b)" by (cases d)
  have t: "token fin isDigit (ds' @ r) = Inr (enc ds', r)"
    by (rule token_prefix) (use assms ds in simp_all)
  show ?thesis
    using assms(2) by (simp add: scanNumber_def notEOF_def ds d t enc_def)
qed


lemma digit_not_space: "isDigit c \<Longrightarrow> \<not> isSpace c" "isSign c \<Longrightarrow> \<not> isSpace c"
  "isDigit c \<Longrightarrow> \<not> isSign c" "isSign c \<Longrightarrow> \<not> isDigit c"
  by (auto simp: isDigit_def isSpace_def isSign_def)

lemma scanInt_number:
  assumes "sign_ok sg" and "ds \<noteq> []" and "\<forall>x\<in>set ds. isDigit (fst x)"
    and "r \<noteq> []" and "\<not> isDigit (fst (hd r))"
  shows "scanInt fin (sg @ ds @ r) =
           (case ParseInt (enc sg @ enc ds) of Inl e \<Rightarrow> Inl e | Inr n \<Rightarrow> Inr (n, r))"
proof -
  obtain d ds' where ds: "ds = d # ds'" using assms(2) by (cases ds) auto
  have hd: "\<not> isSpace (fst (hd (sg @ ds @ r)))" "sg @ ds @ r \<noteq> []"
    using assms(1,3) ds by (auto simp: sign_ok_def digit_not_space)
  have s: "SkipSpace fin (sg @ ds @ r) = Inr (sg @ ds @ r)"
    using hd by (intro SkipSpace_stop)
  have n: "notEOF fin (sg @ ds @ r) = Inr (sg @ ds @ r)"
    using hd(2) by (cases "sg @ ds @ r") (simp_all add: notEOF_def)
  have num: "scanNumber fin (ds @ r) = Inr (enc ds, r)"
    by (rule scanNumber_digits) (use assms in simp_all)
  show ?thesis
  proof (cases "sg = []")
    case True
    with assms(3) ds have "\<not> isSign (fst d)" by (simp add: digit_not_space)
    with True show ?thesis
      using s n num ds
      by (cases d) (simp add: scanInt_def enc_def split: sum.splits)
  next
    case False
    with assms(1) obtain x where x: "sg = [x]" "isSign (fst x)" by (auto simp: sign_ok_def)
    then show ?thesis
      using s n num
      by (cases x) (simp add: scanInt_def enc_def split: sum.splits)
  qed
qed


lemma advance_space_blanks:
  assumes "sp \<noteq> []" and "\<forall>x\<in>set sp. blank x" and "r \<noteq> []" and "\<not> blank (hd r)"
  shows "advance_space fin (sp @ r) = Inr r"
proof -
  obtain x sp' where sp: "sp = x # sp'" using assms(1) by (cases sp) auto
  have "skip_blanks fin (sp' @ r) = Inr r"
    by (rule skip_blanks_prefix) (use assms sp in simp_all)
  with assms(2) sp show ?thesis
    by (cases x) (simp add: advance_space_def blank_def)
qed


lemma EncodeRune_ascii: "c < 0x80 \<Longrightarrow> EncodeRune c = [char_of c]"
  by (simp add: EncodeRune_def)

lemma byte_char_of: "c < 0x80 \<Longrightarrow> byte (char_of c) = c"
  by (simp add: byte_def)

lemma enc_digits:
  assumes "\<forall>x\<in>set ds. isDigit (fst x)"
  shows "list_all (\<lambda>c. isDigit (byte c)) (enc ds)" and "enc ds = map (\<lambda>x. char_of (fst x)) ds"
proof -
  have d: "isDigit c \<Longrightarrow> c < 0x80" for c by (simp add: isDigit_def)
  show 2: "enc ds = map (\<lambda>x. char_of (fst x)) ds"
    using assms by (induction ds) (simp_all add: enc_def EncodeRune_ascii d)
  show "list_all (\<lambda>c. isDigit (byte c)) (enc ds)"
    unfolding 2 using assms by (induction ds) (simp_all add: byte_char_of d)
qed

lemma char_of_sign: "char_of (0x2B :: nat) = CHR ''+''" "char_of (0x2D :: nat) = CHR ''-''"
  by code_simp+

lemma enc_sign:
  "isSign c \<Longrightarrow> EncodeRune c = (if c = 0x2D then ''-'' else ''+'')"
  using char_of_sign by (auto simp: isSign_def EncodeRune_def)

lemma ParseInt_signed:
  assumes "sign_ok sg" and "ds \<noteq> []" and "\<forall>x\<in>set ds. isDigit (fst x)"
  shows "ParseInt (enc sg @ enc ds) =
           (if - (2 ^ 63) \<le> signed_value sg ds \<and> signed_value sg ds < 2 ^ 63
            then Inr (signed_value sg ds)
            else Inl (NumError (enc sg @ enc ds) ''value out of range''))"
proof -
  obtain d ds' where ds: "ds = d # ds'" using assms(2) by (cases ds) auto
  have dg: "is_digits (enc ds)"
    using enc_digits [OF assms(3)] assms(2) by (simp add: is_digits_def)
  have hd: "isDigit (byte (hd (enc ds)))" "enc ds \<noteq> []"
    using enc_digits [OF assms(3)] ds by simp_all
  then have nosign: "hd (enc ds) \<noteq> CHR ''+''" "hd (enc ds) \<noteq> CHR ''-''"
    by (auto simp: isDigit_def byte_def)
  show ?thesis
  proof (cases "sg = []")
    case True
    with hd nosign dg show ?thesis
      by (auto simp: ParseInt_def enc_def signed_value_def Let_def)
  next
    case False
    with assms(1) obtain x where x: "sg = [x]" "isSign (fst x)" by (auto simp: sign_ok_def)
    show ?thesis
    proof (cases "fst x = 0x2D")
      case True
      with x dg show ?thesis
        by (auto simp: ParseInt_def enc_def signed_value_def Let_def enc_sign)
    next
      case False
      with x dg show ?thesis
        by (auto simp: ParseInt_def enc_def signed_value_def Let_def enc_sign)
    qed
  qed
qed

lemma Fscanf_header_parts:
  assumes sp1: "\<forall>x\<in>set sp1. blank x"
    and k: "k \<noteq> []" "\<forall>x\<in>set k. \<not> isSpace (fst x)"
    and sp2: "sp2 \<noteq> []" "\<forall>x\<in>set sp2. blank x"
    and sg: "sign_ok sg" and ds: "ds \<noteq> []" "\<forall>x\<in>set ds. isDigit (fst x)"
  shows "Fscanf_header fin (sp1 @ k @ sp2 @ sg @ ds @ (0, b) # rest) =
           (case ParseInt (enc sg @ enc ds) of
              Inl e \<Rightarrow> Inl e
            | Inr n \<Rightarrow> Inr ((enc k, n), rest))"
proof -
  let ?num = "sg @ ds @ (0, b) # rest"
  obtain d ds' where dd: "ds = d # ds'" using ds(1) by (cases ds) auto
  have numhd: "?num \<noteq> []" "\<not> isSpace (fst (hd ?num))"
    using sg ds dd by (auto simp: sign_ok_def digit_not_space)
  then have numnb: "\<not> blank (hd ?num)" by (simp add: blank_def)
  have khd: "\<not> isSpace (fst (hd (k @ sp2 @ ?num)))" "k @ sp2 @ ?num \<noteq> []"
    using k by (cases k; simp)+
  have 1: "SkipSpace fin (sp1 @ k @ sp2 @ ?num) = Inr (k @ sp2 @ ?num)"
    using SkipSpace_blanks [OF sp1] SkipSpace_stop [OF khd(2,1)] by simp
  have sp2hd: "sp2 @ ?num \<noteq> []" "isSpace (fst (hd (sp2 @ ?num)))"
    using sp2 by (cases sp2; simp add: blank_def)+
  have 2: "convertString fin (k @ sp2 @ ?num) = Inr (enc k, sp2 @ ?num)"
    by (rule convertString_word) (use k sp2hd in \<open>simp_all add: notSpace_def\<close>)
  have 3: "advance_space fin (sp2 @ ?num) = Inr ?num"
    by (rule advance_space_blanks) (use sp2 numhd numnb in simp_all)
  have 4: "SkipSpace fin ?num = Inr ?num"
    by (rule SkipSpace_stop) (use numhd in simp_all)
  have 5: "scanInt fin ?num =
             (case ParseInt (enc sg @ enc ds) of Inl e \<Rightarrow> Inl e
              | Inr n \<Rightarrow> Inr (n, (0, b) # rest))"
    by (rule scanInt_number) (use sg ds in \<open>simp_all add: isDigit_def\<close>)
  show ?thesis
    by (simp add: Fscanf_header_def 1 2 3 4 5 advance_nul_def split: sum.splits)
qed


lemma runes_ascii:
  "\<forall>c\<in>set xs. byte c < 0x80 \<Longrightarrow> runes fin (xs @ ys) = map asc xs @ runes fin ys"
proof (induction xs)
  case Nil
  then show ?case by simp
next
  case (Cons x xs)
  then have x: "byte x < 0x80" by simp
  have "runes fin (x # xs @ ys) = (byte x, [x]) # runes fin (xs @ ys)"
    using x by (subst runes.simps) (simp add: FullRune_def DecodeRune_def)
  with Cons show ?case by (simp add: asc_def)
qed

lemma raw_asc: "raw (map asc xs @ its) = xs @ raw its"
  by (induction xs) (simp_all add: raw_def asc_def)

lemma enc_asc: "\<forall>c\<in>set xs. byte c < 0x80 \<Longrightarrow> enc (map asc xs) = xs"
  by (induction xs) (simp_all add: enc_def asc_def EncodeRune_ascii byte_def)

lemma digits_ascii: "isDigit (byte c) \<Longrightarrow> byte c < 0x80"
  by (simp add: isDigit_def)

lemma Fscanf_header_canonical:
  assumes k: "k \<noteq> []" "\<forall>c\<in>set k. byte c < 0x80 \<and> \<not> isSpace (byte c)"
    and ds: "ds \<noteq> []" "\<forall>c\<in>set ds. isDigit (byte c)" and v: "digits_val ds < 2 ^ 63"
  shows "Fscanf_header fin (runes fin (k @ '' '' @ ds @ [CHR 0x00] @ body))
           = Inr ((k, int (digits_val ds)), runes fin body)"
    and "length (raw (runes fin (k @ '' '' @ ds @ [CHR 0x00] @ body))) - length (raw (runes fin body))
           = length (k @ '' '' @ ds @ [CHR 0x00])"
proof -
  let ?hdr = "k @ '' '' @ ds @ [CHR 0x00]"
  have sp: "byte (CHR '' '') = 0x20" "byte (CHR 0x00) = 0"
    by (simp_all add: byte_def)
  have a: "\<forall>c\<in>set ?hdr. byte c < 0x80"
    using k(2) ds(2) sp by (auto simp: digits_ascii)
  have r: "runes fin (?hdr @ body) = map asc ?hdr @ runes fin body"
    by (rule runes_ascii [OF a])
  have its: "runes fin (k @ '' '' @ ds @ [CHR 0x00] @ body)
      = [] @ map asc k @ [asc (CHR '' '')] @ [] @ map asc ds @ (0, [CHR 0x00]) # runes fin body"
    using r by (simp add: asc_def byte_def)
  have e: "enc (map asc k) = k" "enc (map asc ds) = ds"
    using k(2) ds(2) by (simp_all add: enc_asc digits_ascii)
  have p: "ParseInt (enc [] @ enc (map asc ds)) = Inr (int (digits_val ds))"
    using ParseInt_signed [of "[]" "map asc ds"] ds v e
    by (simp add: sign_ok_def signed_value_def asc_def enc_def)
  show "Fscanf_header fin (runes fin (k @ '' '' @ ds @ [CHR 0x00] @ body))
           = Inr ((k, int (digits_val ds)), runes fin body)"
    unfolding its
    by (subst Fscanf_header_parts)
       (use k ds p e in \<open>simp_all add: asc_def blank_def sign_ok_def byte_def isSpace_def\<close>)
  show "length (raw (runes fin (k @ '' '' @ ds @ [CHR 0x00] @ body))) - length (raw (runes fin body))
           = length (k @ '' '' @ ds @ [CHR 0x00])"
    using r raw_asc [of ?hdr "runes fin body"] by simp
qed

text \<open>
  Claim C3. On an object whose decompressed stream is a kind (\<^verbatim>\<open>blob\<close>, \<^verbatim>\<open>tree\<close> or
  \<^verbatim>\<open>commit\<close>), one space, the decimal digits of a length below \<open>2 ^ 63\<close>, a null byte and
  a body of that length, \<^verbatim>\<open>readObject\<close> returns that kind and that length, with a reader
  that holds exactly the body, whatever the reader's schedule and end: the header is
  consumed up to and including the null byte, no byte of the body is, and reading as many
  bytes as the length says reaches the end of the stream.
\<close>

theorem C3_header_then_body:
  assumes "k = ''blob'' \<or> k = ''tree'' \<or> k = ''commit''"
    and "ds \<noteq> []" and "\<forall>c\<in>set ds. isDigit (byte c)" and "digits_val ds < 2 ^ 63"
    and "length body = digits_val ds"
    and "2 \<le> length sha"
    and "files os (Join [Root r, ''.git'', ''objects'', take 2 sha, drop 2 sha])
           = Some (Deflated \<lparr>data = k @ '' '' @ ds @ [CHR 0x00] @ body, sched = sc, final = f\<rparr>)"
  shows "readObject r sha os =
           Return (Inr (\<lparr>kind = k, length_h = int (digits_val ds)\<rparr>,
                        \<lparr>Reader = \<lparr>data = body, sched = sc, final = f\<rparr>, Closer = next_fd os\<rparr>),
                   os\<lparr>open_files := next_fd os # open_files os, next_fd := Suc (next_fd os)\<rparr>)
         \<and> int (length body) = int (digits_val ds)"
proof -
  define s where "s = k @ '' '' @ ds @ [CHR 0x00] @ body"
  have k: "k \<noteq> []" "\<forall>c\<in>set k. byte c < 0x80 \<and> \<not> isSpace (byte c)"
    using assms(1) by (auto simp: byte_def isSpace_def)
  note h = Fscanf_header_canonical [OF k assms(2,3,4), of f body]
  have h1: "Fscanf_header f (runes f s) = Inr ((k, int (digits_val ds)), runes f body)"
    using h(1) by (simp add: s_def)
  have h2: "drop (length (raw (runes f s)) - length (raw (runes f body))) s = body"
    unfolding s_def h(2) by simp
  have fl: "files os (Join [Root r, ''.git'', ''objects'', take 2 sha, drop 2 sha])
           = Some (Deflated \<lparr>data = s, sched = sc, final = f\<rparr>)"
    using assms(7) by (simp add: s_def)
  show ?thesis
    using assms(5,6) h1 h2 fl
    by (simp add: readObject_def os_Open_def zlib_NewReader_def Let_def del: Join.simps)
qed

theorem C3_witness:
  "readObject \<lparr>Root = ''/repo''\<rparr> ''303132333435363738396162636465666768696a'' hello_store
     = Return (Inr (\<lparr>kind = ''blob'', length_h = 5\<rparr>,
                    \<lparr>Reader = \<lparr>data = ''world'', sched = [], final = None\<rparr>, Closer = 3\<rparr>),
               hello_store\<lparr>open_files := [3], next_fd := 4\<rparr>)
   \<and> length ''world'' = 5"
proof -
  have v: "digits_val ''5'' = 5" by (simp add: digits_val_def byte_def)
  have "readObject \<lparr>Root = ''/repo''\<rparr> ''303132333435363738396162636465666768696a'' hello_store
     = Return (Inr (\<lparr>kind = ''blob'', length_h = int (digits_val ''5'')\<rparr>,
                    \<lparr>Reader = \<lparr>data = ''world'', sched = [], final = None\<rparr>,
                       Closer = next_fd hello_store\<rparr>),
               hello_store\<lparr>open_files := next_fd hello_store # open_files hello_store,
                             next_fd := Suc (next_fd hello_store)\<rparr>)
     \<and> int (length ''world'') = int (digits_val ''5'')"
    by (rule C3_header_then_body)
       (simp_all add: v isDigit_def byte_def hello_store_def)
  then show ?thesis
    by (simp add: v) (simp add: hello_store_def)
qed








end
